theory Spec2Isabelle
  imports Complex_Main "HOL-Library.Word" "HOL-Library.Signed_Division"
begin

section \<open>Data model of the stereo matcher\<close>

text \<open>
  The development embeds the semi-global matcher of visgeom
  (\<^verbatim>\<open>src/reconstruction/eucm_stereo.cpp\<close>) and the epipolar curve table
  (\<^verbatim>\<open>EnhancedEpipolar\<close>).  A \<^verbatim>\<open>uint8_t\<close> is an \<open>8 word\<close>, so that a narrowing store
  wraps as the machine does.  A C++ \<^verbatim>\<open>int\<close> is an \<open>int\<close> in the range of 32 bits, and
  the sums of the optimiser are taken with \<open>add32\<close>, \<open>sub32\<close> and \<open>mul32\<close>, which wrap
  around as the 32-bit machine words do.
  A \<^verbatim>\<open>double\<close> is a \<open>real\<close>; a vector or a curve that may hold NaN is an \<open>option\<close>.
\<close>

type_synonym u8 = "8 word"

text \<open>
  \<^verbatim>\<open>StereoParameters\<close>: the fields the functions below read.  The declaration
  is in a header outside the sources; the types follow from the uses
  (\<^verbatim>\<open>std::max(params.scale - 1, 1)\<close>, \<^verbatim>\<open>std::min(params.maxBias, ...)\<close>,
  \<^verbatim>\<open>inCost[1] + params.lambdaStep\<close> take \<^verbatim>\<open>int\<close>).
\<close>

record StereoParameters =
  dispWidth :: int
  dispHeight :: int
  dispMax :: int
  lambdaStep :: int
  lambdaJump :: int
  scale :: int
  maxBias :: int
  maxDistance :: real


text \<open>Sums, differences and products of \<^verbatim>\<open>int\<close>, through the 32-bit words.\<close>

definition add32 :: "int \<Rightarrow> int \<Rightarrow> int" where
  "add32 a b = sint (word_of_int a + word_of_int b :: 32 word)"

definition sub32 :: "int \<Rightarrow> int \<Rightarrow> int" where
  "sub32 a b = sint (word_of_int a - word_of_int b :: 32 word)"

definition mul32 :: "int \<Rightarrow> int \<Rightarrow> int" where
  "mul32 a b = sint (word_of_int a * word_of_int b :: 32 word)"

definition fits32 :: "int \<Rightarrow> bool" where
  "fits32 k \<longleftrightarrow> - (2 ^ 31) \<le> k \<and> k < 2 ^ 31"

section \<open>Dynamic programming\<close>

text \<open>
  \<^verbatim>\<open>computeDynamicStep(inCost, error, outCost)\<close>.  The three pointers address blocks
  of \<open>dispMax\<close> entries.  The source reads \<^verbatim>\<open>inCost[1]\<close> and
  \<^verbatim>\<open>inCost[dispMax - 2]\<close> unconditionally, which lie outside the block when
  \<open>dispMax < 2\<close>: that read has no defined result and is \<open>None\<close> here.
\<close>

definition computeDynamicStep :: "StereoParameters \<Rightarrow> int list \<Rightarrow> u8 list \<Rightarrow> int list option" where
  "computeDynamicStep p inCost error =
    (let D = nat (dispMax p) in
     if dispMax p < 2 \<or> length inCost \<noteq> D \<or> length error \<noteq> D then None
     else
       let bestCost = fold (\<lambda>i b. min b (inCost ! i)) [1..<D] (inCost ! 0);
           val0 = add32 (min (min (inCost ! 0) (add32 (inCost ! 1) (lambdaStep p)))
                             (add32 bestCost (lambdaJump p)))
                        (uint (error ! 0));
           vals = map (\<lambda>i. add32 (min (min (min (inCost ! i) (add32 (inCost ! (i + 1)) (lambdaStep p)))
                                           (add32 (inCost ! (i - 1)) (lambdaStep p)))
                                      (add32 bestCost (lambdaJump p)))
                                 (uint (error ! i)))
                      [1..<D - 1];
           vald = add32 (min (min (inCost ! (D - 1)) (add32 (inCost ! (D - 2)) (lambdaStep p)))
                             (add32 bestCost (lambdaJump p)))
                        (uint (error ! (D - 1)))
       in Some (val0 # vals @ [vald]))"

text \<open>
  One scan of \<^verbatim>\<open>computeDynamicProgramming\<close>: the loop
  \<^verbatim>\<open>for (u = 1; u < dispWidth; u++) computeDynamicStep(row + (u-1)*dispMax, err + u*dispMax, row + u*dispMax)\<close>
  threads the block just written into the next step.
\<close>

fun dynamicSweep :: "StereoParameters \<Rightarrow> int list \<Rightarrow> u8 list list \<Rightarrow> int list list option" where
  "dynamicSweep p prev [] = Some []"
| "dynamicSweep p prev (e # es) =
    (case computeDynamicStep p prev e of
       None \<Rightarrow> None
     | Some out \<Rightarrow>
        (case dynamicSweep p out es of
           None \<Rightarrow> None
         | Some rest \<Rightarrow> Some (out # rest)))"

text \<open>
  A whole scan line: \<^verbatim>\<open>copy(errorRow, errorRow + dispMax, tableauRow)\<close> initialises the
  first block with the raw cost, then the sweep fills the rest.  An empty line has no
  first block to copy.
\<close>

definition sweepLine :: "StereoParameters \<Rightarrow> u8 list list \<Rightarrow> int list list option" where
  "sweepLine p line =
    (case line of
       [] \<Rightarrow> None
     | e # es \<Rightarrow>
        (case dynamicSweep p (map uint e) es of
           None \<Rightarrow> None
         | Some rest \<Rightarrow> Some (map uint e # rest)))"

text \<open>The decreasing scans walk the same line from its last block to its first.\<close>

definition sweepLineBack :: "StereoParameters \<Rightarrow> u8 list list \<Rightarrow> int list list option" where
  "sweepLineBack p line = map_option rev (sweepLine p (rev line))"

text \<open>All scans of a direction; one failing scan fails the call.\<close>

fun allLines :: "'a option list \<Rightarrow> 'a list option" where
  "allLines [] = Some []"
| "allLines (None # xs) = None"
| "allLines (Some x # xs) = (case allLines xs of None \<Rightarrow> None | Some ys \<Rightarrow> Some (x # ys))"

text \<open>
  The buffers of one matcher instance that the optimiser touches: the cost volume
  \<open>errorBuffer ! v ! u ! d\<close>, the four tableaus of the same shape and the disparity map.
\<close>

record EnhancedStereo =
  params :: StereoParameters
  errorBuffer :: "u8 list list list"
  tableauLeft :: "int list list list"
  tableauRight :: "int list list list"
  tableauTop :: "int list list list"
  tableauBottom :: "int list list list"
  smallDisparity :: "u8 list list"

text \<open>\<^verbatim>\<open>createBuffer\<close> sizes every buffer to \<open>dispHeight \<times> dispWidth \<times> dispMax\<close>.\<close>

definition volumeShape :: "StereoParameters \<Rightarrow> 'a list list list \<Rightarrow> bool" where
  "volumeShape p vol \<longleftrightarrow>
     length vol = nat (dispHeight p) \<and>
     list_all (\<lambda>row. length row = nat (dispWidth p) \<and>
                list_all (\<lambda>blk. length blk = nat (dispMax p)) row) vol"

definition column :: "'a list list \<Rightarrow> nat \<Rightarrow> 'a list" where
  "column vol u = map (\<lambda>row. row ! u) vol"

definition fromColumns :: "nat \<Rightarrow> nat \<Rightarrow> 'a list list \<Rightarrow> 'a list list" where
  "fromColumns H W cols = map (\<lambda>v. map (\<lambda>u. cols ! u ! v) [0..<W]) [0..<H]"

definition computeDynamicProgramming :: "EnhancedStereo \<Rightarrow> EnhancedStereo option" where
  "computeDynamicProgramming st =
    (let p = params st; W = nat (dispWidth p); H = nat (dispHeight p); err = errorBuffer st in
     if \<not> volumeShape p err then None
     else
       Option.bind (allLines (map (\<lambda>v. sweepLine p (err ! v)) [0..<H])) (\<lambda>tLeft.
       Option.bind (allLines (map (\<lambda>v. sweepLineBack p (err ! v)) [0..<H])) (\<lambda>tRight.
       Option.bind (allLines (map (\<lambda>u. sweepLine p (column err u)) [0..<W])) (\<lambda>tTop.
       Option.bind (allLines (map (\<lambda>u. sweepLineBack p (column err u)) [0..<W])) (\<lambda>tBottom.
         Some (st\<lparr>tableauLeft := tLeft, tableauRight := tRight,
                  tableauTop := fromColumns H W tTop,
                  tableauBottom := fromColumns H W tBottom\<rparr>))))))"

subsection \<open>The scans over the integers\<close>

text \<open>
  The same step, sweep and scan line with the sums taken in the integers, where nothing
  wraps.  They serve the proofs: the recurrence and its monotonicity are shown for them,
  and the functions above agree with them as long as every sum fits 32 bits.
\<close>

definition idealStep :: "StereoParameters \<Rightarrow> int list \<Rightarrow> u8 list \<Rightarrow> int list option" where
  "idealStep p inCost error =
    (let D = nat (dispMax p) in
     if dispMax p < 2 \<or> length inCost \<noteq> D \<or> length error \<noteq> D then None
     else
       let bestCost = fold (\<lambda>i b. min b (inCost ! i)) [1..<D] (inCost ! 0);
           val0 = min (min (inCost ! 0) (inCost ! 1 + lambdaStep p))
                      (bestCost + lambdaJump p) + uint (error ! 0);
           vals = map (\<lambda>i. min (min (min (inCost ! i) (inCost ! (i + 1) + lambdaStep p))
                                    (inCost ! (i - 1) + lambdaStep p))
                               (bestCost + lambdaJump p) + uint (error ! i))
                      [1..<D - 1];
           vald = min (min (inCost ! (D - 1)) (inCost ! (D - 2) + lambdaStep p))
                      (bestCost + lambdaJump p) + uint (error ! (D - 1))
       in Some (val0 # vals @ [vald]))"

fun idealSweep :: "StereoParameters \<Rightarrow> int list \<Rightarrow> u8 list list \<Rightarrow> int list list option" where
  "idealSweep p prev [] = Some []"
| "idealSweep p prev (e # es) =
    (case idealStep p prev e of
       None \<Rightarrow> None
     | Some out \<Rightarrow>
        (case idealSweep p out es of
           None \<Rightarrow> None
         | Some rest \<Rightarrow> Some (out # rest)))"

definition idealLine :: "StereoParameters \<Rightarrow> u8 list list \<Rightarrow> int list list option" where
  "idealLine p line =
    (case line of
       [] \<Rightarrow> None
     | e # es \<Rightarrow>
        (case idealSweep p (map uint e) es of
           None \<Rightarrow> None
         | Some rest \<Rightarrow> Some (map uint e # rest)))"

text \<open>
  The recurrence as the specification words it: the raw cost plus the least of the
  previous entry at the same disparity, the two neighbours (where they exist) with the
  step penalty, and the best previous entry with the jump penalty.
\<close>

definition dpRecurrence :: "StereoParameters \<Rightarrow> int list \<Rightarrow> u8 list \<Rightarrow> nat \<Rightarrow> int" where
  "dpRecurrence p prev cost d =
     uint (cost ! d) +
     Min ({prev ! d, Min (set prev) + lambdaJump p}
          \<union> (if 0 < d then {prev ! (d - 1) + lambdaStep p} else {})
          \<union> (if d + 1 < length prev then {prev ! (d + 1) + lambdaStep p} else {}))"

lemma fold_min_nth:
  assumes "xs \<noteq> []"
  shows "fold (\<lambda>i b. min b (xs ! i)) [1..<length xs] (xs ! 0) = Min (set xs)"
proof -
  obtain y ys where xs: "xs = y # ys" using assms by (cases xs) auto
  have m: "map (\<lambda>i. xs ! i) [1..<length xs] = ys"
  proof -
    have "[1..<length xs] = map Suc [0..<length ys]"
      by (simp add: xs map_Suc_upt)
    then show ?thesis by (simp add: xs comp_def map_nth)
  qed
  have "fold (\<lambda>i b. min b (xs ! i)) [1..<length xs] (xs ! 0)
        = fold (\<lambda>x b. min b x) (map (\<lambda>i. xs ! i) [1..<length xs]) (xs ! 0)"
    by (simp add: fold_map comp_def)
  also have "\<dots> = fold min ys y"
    unfolding m by (simp add: xs min.commute)
  also have "\<dots> = Min (set xs)"
    unfolding xs by (rule Min.set_eq_fold [symmetric])
  finally show ?thesis .
qed

lemma idealStep_Some:
  assumes "2 \<le> dispMax p" "length inCost = nat (dispMax p)" "length error = nat (dispMax p)"
  shows "\<exists>out. idealStep p inCost error = Some out \<and> length out = nat (dispMax p) \<and>
           (\<forall>d<nat (dispMax p). out ! d = dpRecurrence p inCost error d)"
proof -
  define D where "D = nat (dispMax p)"
  have D2: "2 \<le> D" using assms(1) by (simp add: D_def)
  have ne: "inCost \<noteq> []" using assms D2 by (auto simp: D_def)
  have best: "fold (\<lambda>i b. min b (inCost ! i)) [1..<D] (inCost ! 0) = Min (set inCost)"
    using fold_min_nth[OF ne] assms by (simp add: D_def)
  define B where "B = Min (set inCost) + lambdaJump p"
  define val0 where "val0 = min (min (inCost ! 0) (inCost ! 1 + lambdaStep p)) B + uint (error ! 0)"
  define vals where "vals = map (\<lambda>i. min (min (min (inCost ! i) (inCost ! (i + 1) + lambdaStep p))
                                    (inCost ! (i - 1) + lambdaStep p)) B + uint (error ! i)) [1..<D - 1]"
  define vald where "vald = min (min (inCost ! (D - 1)) (inCost ! (D - 2) + lambdaStep p)) B + uint (error ! (D - 1))"
  have eq: "idealStep p inCost error = Some (val0 # vals @ [vald])"
    using assms best by (simp add: idealStep_def Let_def D_def[symmetric] val0_def vals_def vald_def B_def)
  have len: "length (val0 # vals @ [vald]) = D" using D2 by (simp add: vals_def)
  have "(val0 # vals @ [vald]) ! d = dpRecurrence p inCost error d" if "d < D" for d
  proof -
    have "d = 0 \<or> (0 < d \<and> d < D - 1) \<or> (d = D - 1 \<and> 0 < d)" using that by arith
    then consider "d = 0" | "0 < d" "d < D - 1" | "d = D - 1" "0 < d" by blast
    then show ?thesis
    proof cases
      case 1
      then show ?thesis using D2 assms(2)
        by (simp add: dpRecurrence_def val0_def B_def D_def[symmetric] min.commute min.left_commute)
    next
      case 2
      then have step: "Suc 0 + (d - Suc 0) < D - Suc 0" by arith
      from 2 have lt: "d - 1 < length vals" by (simp add: vals_def)
      have "(val0 # vals @ [vald]) ! d = vals ! (d - 1)"
        using 2 lt by (simp add: nth_Cons' nth_append)
      also have "\<dots> = min (min (min (inCost ! d) (inCost ! (d + 1) + lambdaStep p))
                                    (inCost ! (d - 1) + lambdaStep p)) B + uint (error ! d)"
      proof -
        have "[Suc 0..<D - Suc 0] ! (d - Suc 0) = Suc 0 + (d - Suc 0)"
          using step by (simp only: nth_upt)
        then have "[Suc 0..<D - Suc 0] ! (d - Suc 0) = d" using 2 by simp
        with lt show ?thesis by (simp add: vals_def)
      qed
      finally have v: "(val0 # vals @ [vald]) ! d = min (min (min (inCost ! d) (inCost ! (d + 1) + lambdaStep p))
                                    (inCost ! (d - 1) + lambdaStep p)) B + uint (error ! d)" .
      have sd: "Suc d < D" using 2 by arith
      show ?thesis using 2 assms(2) sd unfolding v
        by (simp add: dpRecurrence_def B_def D_def[symmetric] min.commute min.left_commute)
    next
      case 3
      then have "d - 1 = length vals" using D2 by (simp add: vals_def)
      then have "(val0 # vals @ [vald]) ! d = vald"
        using 3 by (simp add: nth_Cons' nth_append)
      then show ?thesis using 3 assms(2) D2
        by (simp add: numeral_2_eq_2 dpRecurrence_def vald_def B_def D_def[symmetric] min.commute min.left_commute)
    qed
  qed
  with eq len show ?thesis by (simp add: D_def)
qed

lemma idealSweep_Some:
  assumes "2 \<le> dispMax p" "length prev = nat (dispMax p)" "\<forall>e\<in>set es. length e = nat (dispMax p)"
  shows "\<exists>ts. idealSweep p prev es = Some ts \<and> length ts = length es \<and>
           (\<forall>i<length es. length (ts ! i) = nat (dispMax p) \<and>
              (\<forall>d<nat (dispMax p). ts ! i ! d = dpRecurrence p ((prev # ts) ! i) (es ! i) d))"
  using assms(2,3)
proof (induction es arbitrary: prev)
  case Nil
  then show ?case by simp
next
  case (Cons e es)
  from Cons.prems have le: "length e = nat (dispMax p)" by simp
  from idealStep_Some[OF assms(1) Cons.prems(1) le]
  obtain out where out: "idealStep p prev e = Some out" "length out = nat (dispMax p)"
    "\<forall>d<nat (dispMax p). out ! d = dpRecurrence p prev e d" by blast
  from Cons.prems have "\<forall>e\<in>set es. length e = nat (dispMax p)" by simp
  from Cons.IH[OF out(2) this]
  obtain ts where ts: "idealSweep p out es = Some ts" "length ts = length es"
    "\<forall>i<length es. length (ts ! i) = nat (dispMax p) \<and>
        (\<forall>d<nat (dispMax p). ts ! i ! d = dpRecurrence p ((out # ts) ! i) (es ! i) d)" by blast
  have "\<forall>i<length (e # es). length ((out # ts) ! i) = nat (dispMax p) \<and>
          (\<forall>d<nat (dispMax p). (out # ts) ! i ! d = dpRecurrence p ((prev # out # ts) ! i) ((e # es) ! i) d)"
  proof (intro allI impI)
    fix i assume "i < length (e # es)"
    then show "length ((out # ts) ! i) = nat (dispMax p) \<and>
          (\<forall>d<nat (dispMax p). (out # ts) ! i ! d = dpRecurrence p ((prev # out # ts) ! i) ((e # es) ! i) d)"
      using out ts(3) by (cases i) auto
  qed
  with out(1) ts(1,2) show ?case by simp
qed

definition forwardScan :: "StereoParameters \<Rightarrow> u8 list list \<Rightarrow> int list list \<Rightarrow> bool" where
  "forwardScan p line T \<longleftrightarrow>
     length T = length line \<and>
     (\<forall>i<length line. length (T ! i) = nat (dispMax p) \<and>
        (\<forall>d<nat (dispMax p). T ! i ! d =
           (if i = 0 then uint (line ! i ! d) else dpRecurrence p (T ! (i - 1)) (line ! i) d)))"

definition backwardScan :: "StereoParameters \<Rightarrow> u8 list list \<Rightarrow> int list list \<Rightarrow> bool" where
  "backwardScan p line T \<longleftrightarrow>
     length T = length line \<and>
     (\<forall>i<length line. length (T ! i) = nat (dispMax p) \<and>
        (\<forall>d<nat (dispMax p). T ! i ! d =
           (if i + 1 = length line then uint (line ! i ! d) else dpRecurrence p (T ! (i + 1)) (line ! i) d)))"

lemma idealLine_Some:
  assumes "2 \<le> dispMax p" "line \<noteq> []" "\<forall>e\<in>set line. length e = nat (dispMax p)"
  shows "\<exists>T. idealLine p line = Some T \<and> forwardScan p line T"
proof -
  obtain e es where line: "line = e # es" using assms(2) by (cases line) auto
  have le: "length (map uint e) = nat (dispMax p)" using assms(3) line by simp
  have les: "\<forall>e\<in>set es. length e = nat (dispMax p)" using assms(3) line by simp
  from idealSweep_Some[OF assms(1) le les]
  obtain ts where ts: "idealSweep p (map uint e) es = Some ts" "length ts = length es"
    "\<forall>i<length es. length (ts ! i) = nat (dispMax p) \<and>
        (\<forall>d<nat (dispMax p). ts ! i ! d = dpRecurrence p ((map uint e # ts) ! i) (es ! i) d)" by blast
  have sw: "idealLine p line = Some (map uint e # ts)"
    using ts(1) by (simp add: idealLine_def line)
  have "forwardScan p line (map uint e # ts)"
    unfolding forwardScan_def line
  proof (intro conjI allI impI)
    show "length (map uint e # ts) = length (e # es)" using ts(2) by simp
  next
    fix i assume "i < length (e # es)"
    then show "length ((map uint e # ts) ! i) = nat (dispMax p)"
      using le ts(3) by (cases i) auto
  next
    fix i d assume "i < length (e # es)" "d < nat (dispMax p)"
    then show "(map uint e # ts) ! i ! d =
         (if i = 0 then uint ((e # es) ! i ! d)
          else dpRecurrence p ((map uint e # ts) ! (i - 1)) ((e # es) ! i) d)"
      using le ts(3) by (cases i) auto
  qed
  with sw show ?thesis by blast
qed

lemma idealStep_SomeD:
  assumes "idealStep p inCost error = Some out"
  shows "2 \<le> dispMax p" "length inCost = nat (dispMax p)" "length error = nat (dispMax p)"
    "length out = nat (dispMax p)" "\<forall>d<nat (dispMax p). out ! d = dpRecurrence p inCost error d"
proof -
  show g: "2 \<le> dispMax p" "length inCost = nat (dispMax p)" "length error = nat (dispMax p)"
    using assms by (auto simp: idealStep_def Let_def split: if_splits)
  from idealStep_Some[OF g] assms
  show "length out = nat (dispMax p)" "\<forall>d<nat (dispMax p). out ! d = dpRecurrence p inCost error d"
    by auto
qed

lemma Min_set_mono:
  assumes "list_all2 (\<le>) xs ys" "xs \<noteq> []"
  shows "Min (set xs) \<le> Min (set (ys :: int list))"
proof -
  have len: "length xs = length ys" using assms(1) by (rule list_all2_lengthD)
  then have ne: "ys \<noteq> []" using assms(2) by auto
  then have "Min (set ys) \<in> set ys" by (intro Min_in) auto
  then obtain k where k: "k < length ys" "ys ! k = Min (set ys)" by (auto simp: in_set_conv_nth)
  have "xs ! k \<le> ys ! k" using assms(1) k(1) len by (simp add: list_all2_nthD2)
  moreover have "Min (set xs) \<le> xs ! k" using k(1) len by (intro Min_le) auto
  ultimately show ?thesis using k(2) by simp
qed

lemma dpRecurrence_alt:
  "dpRecurrence p prev cost d =
     uint (cost ! d) +
     min (min (prev ! d) (Min (set prev) + lambdaJump p))
         (min (if 0 < d then prev ! (d - 1) + lambdaStep p else prev ! d)
              (if d + 1 < length prev then prev ! (d + 1) + lambdaStep p else prev ! d))"
  by (simp add: dpRecurrence_def min.commute min.left_commute min.assoc)

lemma dpRecurrence_mono:
  assumes le: "list_all2 (\<le>) prev1 prev2" and ne: "prev1 \<noteq> []"
    and j: "lambdaJump p1 \<le> lambdaJump p2" and s: "lambdaStep p1 = lambdaStep p2"
    and d: "d < length prev1"
  shows "dpRecurrence p1 prev1 cost d \<le> dpRecurrence p2 prev2 cost d"
proof -
  have len: "length prev1 = length prev2" using le by (rule list_all2_lengthD)
  have nth: "prev1 ! i \<le> prev2 ! i" if "i < length prev1" for i
    using le that by (simp add: list_all2_nthD)
  have m: "Min (set prev1) + lambdaJump p1 \<le> Min (set prev2) + lambdaJump p2"
    using Min_set_mono[OF le ne] j by simp
  have a: "(if 0 < d then prev1 ! (d - 1) + lambdaStep p1 else prev1 ! d)
         \<le> (if 0 < d then prev2 ! (d - 1) + lambdaStep p2 else prev2 ! d)"
    using nth[of "d - 1"] nth[of d] d s by auto
  have b: "(if d + 1 < length prev1 then prev1 ! (d + 1) + lambdaStep p1 else prev1 ! d)
         \<le> (if d + 1 < length prev2 then prev2 ! (d + 1) + lambdaStep p2 else prev2 ! d)"
    using nth[of "d + 1"] nth[of d] d s len by auto
  show ?thesis
    unfolding dpRecurrence_alt
    by (intro add_left_mono min.mono nth[OF d] m a b)
qed

lemma idealStep_mono:
  assumes "list_all2 (\<le>) in1 in2"
    and "idealStep p1 in1 e = Some o1" "idealStep p2 in2 e = Some o2"
    and j: "lambdaJump p1 \<le> lambdaJump p2" and s: "lambdaStep p1 = lambdaStep p2"
    and D: "dispMax p1 = dispMax p2"
  shows "list_all2 (\<le>) o1 o2"
proof -
  note d1 = idealStep_SomeD[OF assms(2)]
  note d2 = idealStep_SomeD[OF assms(3)]
  have ne: "in1 \<noteq> []" using d1(1,2) by auto
  show ?thesis
  proof (rule list_all2_all_nthI)
    show "length o1 = length o2" using d1(4) d2(4) D by simp
  next
    fix d assume "d < length o1"
    then have dd: "d < nat (dispMax p1)" using d1(4) by simp
    then have "d < length in1" using d1(2) by simp
    from dpRecurrence_mono[OF assms(1) ne j s this]
    show "o1 ! d \<le> o2 ! d" using d1(5) d2(5) dd D by simp
  qed
qed

lemma idealSweep_mono:
  assumes j: "lambdaJump p1 \<le> lambdaJump p2" and s: "lambdaStep p1 = lambdaStep p2"
    and D: "dispMax p1 = dispMax p2"
  shows "list_all2 (\<le>) prev1 prev2 \<Longrightarrow> idealSweep p1 prev1 es = Some t1 \<Longrightarrow>
         idealSweep p2 prev2 es = Some t2 \<Longrightarrow> list_all2 (list_all2 (\<le>)) t1 t2"
proof (induction es arbitrary: prev1 prev2 t1 t2)
  case Nil
  then show ?case by simp
next
  case (Cons e es)
  from Cons.prems(2) obtain o1 r1 where 1: "idealStep p1 prev1 e = Some o1"
    "idealSweep p1 o1 es = Some r1" "t1 = o1 # r1"
    by (auto split: option.splits)
  from Cons.prems(3) obtain o2 r2 where 2: "idealStep p2 prev2 e = Some o2"
    "idealSweep p2 o2 es = Some r2" "t2 = o2 # r2"
    by (auto split: option.splits)
  have o: "list_all2 (\<le>) o1 o2"
    using idealStep_mono[OF Cons.prems(1) 1(1) 2(1) j s D] .
  from Cons.IH[OF o 1(2) 2(2)] o show ?case by (simp add: 1(3) 2(3))
qed

lemma idealLine_mono:
  assumes j: "lambdaJump p1 \<le> lambdaJump p2" and s: "lambdaStep p1 = lambdaStep p2"
    and D: "dispMax p1 = dispMax p2"
    and "idealLine p1 line = Some t1" "idealLine p2 line = Some t2"
  shows "list_all2 (list_all2 (\<le>)) t1 t2"
proof -
  obtain e es where line: "line = e # es" using assms(4) by (cases line) (auto simp: idealLine_def)
  from assms(4) obtain r1 where 1: "idealSweep p1 (map uint e) es = Some r1" "t1 = map uint e # r1"
    by (auto simp: idealLine_def line split: option.splits)
  from assms(5) obtain r2 where 2: "idealSweep p2 (map uint e) es = Some r2" "t2 = map uint e # r2"
    by (auto simp: idealLine_def line split: option.splits)
  have refl: "list_all2 (\<le>) (map uint e) (map uint e)" by (simp add: list_all2_refl)
  from idealSweep_mono[OF j s D refl 1(1) 2(1)] refl show ?thesis by (simp add: 1(2) 2(2))
qed

subsection \<open>Size of the tableau entries\<close>

text \<open>
  With non-negative penalties the entry at position \<open>i\<close> of a scan over the integers
  lies between 0 and \<open>255 (i + 1)\<close>.
\<close>

lemma uint_u8_range: "0 \<le> uint (b :: u8) \<and> uint b \<le> 255"
proof -
  have "uint b < 2 ^ LENGTH(8)" by (rule uint_lt2p)
  then show ?thesis by simp
qed

lemma dpRecurrence_range:
  assumes s: "0 \<le> lambdaStep p" and j: "0 \<le> lambdaJump p"
    and b: "\<forall>d<length prev. 0 \<le> prev ! d \<and> prev ! d \<le> M" and d: "d < length prev"
  shows "0 \<le> dpRecurrence p prev cost d \<and> dpRecurrence p prev cost d \<le> M + 255"
proof -
  have ne: "prev \<noteq> []" using d by auto
  then have "Min (set prev) \<in> set prev" by (intro Min_in) auto
  then obtain k where "k < length prev" "prev ! k = Min (set prev)" by (auto simp: in_set_conv_nth)
  with b have m0: "0 \<le> Min (set prev)" by auto
  define x where "x = min (min (prev ! d) (Min (set prev) + lambdaJump p))
         (min (if 0 < d then prev ! (d - 1) + lambdaStep p else prev ! d)
              (if d + 1 < length prev then prev ! (d + 1) + lambdaStep p else prev ! d))"
  have up: "x \<le> M" using b d by (auto simp: x_def min_le_iff_disj)
  have a: "0 \<le> (if 0 < d then prev ! (d - 1) + lambdaStep p else prev ! d)"
    using b d s by (auto intro: add_nonneg_nonneg)
  have c: "0 \<le> (if d + 1 < length prev then prev ! (d + 1) + lambdaStep p else prev ! d)"
    using b d s by (auto intro: add_nonneg_nonneg)
  have lo: "0 \<le> x" using b d m0 j a c by (simp add: x_def)
  have "dpRecurrence p prev cost d = uint (cost ! d) + x"
    by (simp only: dpRecurrence_alt x_def)
  with up lo uint_u8_range[of "cost ! d"] show ?thesis by linarith
qed

lemma idealSweep_range:
  assumes s: "0 \<le> lambdaStep p" and j: "0 \<le> lambdaJump p"
  shows "idealSweep p prev es = Some ts \<Longrightarrow> \<forall>d<length prev. 0 \<le> prev ! d \<and> prev ! d \<le> M \<Longrightarrow>
         \<forall>i<length ts. \<forall>d<length (ts ! i). 0 \<le> ts ! i ! d \<and> ts ! i ! d \<le> M + 255 * (int i + 1)"
proof (induction es arbitrary: prev ts M)
  case Nil
  then show ?case by simp
next
  case (Cons e es)
  from Cons.prems(1) obtain out r where 1: "idealStep p prev e = Some out"
    "idealSweep p out es = Some r" "ts = out # r"
    by (auto split: option.splits)
  note D = idealStep_SomeD[OF 1(1)]
  have o: "\<forall>d<length out. 0 \<le> out ! d \<and> out ! d \<le> M + 255"
  proof (intro allI impI)
    fix d assume "d < length out"
    then have dd: "d < nat (dispMax p)" "d < length prev" using D(2,4) by simp_all
    from dpRecurrence_range[OF s j Cons.prems(2) dd(2)] D(5) dd(1)
    show "0 \<le> out ! d \<and> out ! d \<le> M + 255" by simp
  qed
  from Cons.IH[OF 1(2) o]
  have r: "\<forall>i<length r. \<forall>d<length (r ! i). 0 \<le> r ! i ! d \<and> r ! i ! d \<le> M + 255 + 255 * (int i + 1)" .
  show ?case
  proof (intro allI impI)
    fix i d assume i: "i < length ts" and d: "d < length (ts ! i)"
    show "0 \<le> ts ! i ! d \<and> ts ! i ! d \<le> M + 255 * (int i + 1)"
    proof (cases i)
      case 0
      then show ?thesis using o d by (simp add: 1(3))
    next
      case (Suc k)
      then have "k < length r" "d < length (r ! k)" using i d by (simp_all add: 1(3))
      with r have "0 \<le> r ! k ! d \<and> r ! k ! d \<le> M + 255 + 255 * (int k + 1)" by blast
      then show ?thesis by (simp add: Suc 1(3))
    qed
  qed
qed

lemma idealLine_range:
  assumes s: "0 \<le> lambdaStep p" and j: "0 \<le> lambdaJump p"
    and run: "idealLine p line = Some T" and i: "i < length T" and d: "d < length (T ! i)"
  shows "0 \<le> T ! i ! d \<and> T ! i ! d \<le> 255 * (int i + 1)"
proof -
  obtain e es where line: "line = e # es" using run by (cases line) (auto simp: idealLine_def)
  from run obtain r where 1: "idealSweep p (map uint e) es = Some r" "T = map uint e # r"
    by (auto simp: idealLine_def line split: option.splits)
  have b: "\<forall>d<length (map uint e). 0 \<le> map uint e ! d \<and> map uint e ! d \<le> 255"
    using uint_u8_range by simp
  note R = idealSweep_range[OF s j 1(1) b]
  show ?thesis
  proof (cases i)
    case 0
    then show ?thesis using d uint_u8_range[of "e ! d"] by (simp add: 1(2))
  next
    case (Suc k)
    then have "k < length r" "d < length (r ! k)" using i d by (simp_all add: 1(2))
    with R have "0 \<le> r ! k ! d \<and> r ! k ! d \<le> 255 + 255 * (int k + 1)" by blast
    then show ?thesis by (simp add: Suc 1(2))
  qed
qed

subsection \<open>Agreement of the 32-bit sums with the integers\<close>

text \<open>
  A sum whose exact value fits 32 bits is that value.  With non-negative penalties the
  entries of block \<open>i\<close> of a scan lie between 0 and \<open>255 (i + 1)\<close>, so on a line of \<open>n\<close>
  blocks no sum of the step wraps as long as \<open>255 n\<close> plus the larger penalty stays below
  \<open>2\<^sup>3\<^sup>1\<close>; the scan of the code is the scan over the integers then.
\<close>

lemma sint32_fits: "fits32 k \<Longrightarrow> sint (word_of_int k :: 32 word) = k"
  by (simp add: fits32_def signed_of_int signed_take_bit_int_eq_self)

lemma add32_fits: "fits32 (a + b) \<Longrightarrow> add32 a b = a + b"
  using sint32_fits[of "a + b"] by (simp add: add32_def)

lemma sub32_fits: "fits32 (a - b) \<Longrightarrow> sub32 a b = a - b"
  using sint32_fits[of "a - b"] by (simp add: sub32_def)

lemma mul32_fits: "fits32 (a * b) \<Longrightarrow> mul32 a b = a * b"
  using sint32_fits[of "a * b"] by (simp add: mul32_def)


lemma step_eq_ideal:
  assumes s: "0 \<le> lambdaStep p" and j: "0 \<le> lambdaJump p"
    and b: "\<forall>d<length inCost. 0 \<le> inCost ! d \<and> inCost ! d \<le> M"
    and M: "M + 255 < 2 ^ 31" "M + lambdaStep p < 2 ^ 31" "M + lambdaJump p < 2 ^ 31"
  shows "computeDynamicStep p inCost error = idealStep p inCost error"
proof (cases "dispMax p < 2 \<or> length inCost \<noteq> nat (dispMax p) \<or> length error \<noteq> nat (dispMax p)")
  case True
  then show ?thesis by (auto simp: computeDynamicStep_def idealStep_def Let_def)
next
  case False
  define D where "D = nat (dispMax p)"
  from False have D2: "2 \<le> D" and len: "length inCost = D" by (auto simp: D_def)
  define best where "best = fold (\<lambda>i b. min b (inCost ! i)) [1..<D] (inCost ! 0)"
  have ne: "inCost \<noteq> []" using len D2 by auto
  have bestMin: "best = Min (set inCost)" using fold_min_nth[OF ne] by (simp add: best_def len)
  have "Min (set inCost) \<in> set inCost" using ne by (intro Min_in) auto
  then obtain k where "k < length inCost" "inCost ! k = Min (set inCost)"
    by (auto simp: in_set_conv_nth)
  with b bestMin have best: "0 \<le> best" "best \<le> M" by auto
  have A: "add32 (inCost ! i) (lambdaStep p) = inCost ! i + lambdaStep p"
    and A0: "0 \<le> inCost ! i + lambdaStep p" if "i < D" for i
  proof -
    from b that len have r: "0 \<le> inCost ! i" "inCost ! i \<le> M" by auto
    then have "fits32 (inCost ! i + lambdaStep p)" using s M(2) by (simp add: fits32_def)
    then show "add32 (inCost ! i) (lambdaStep p) = inCost ! i + lambdaStep p" by (rule add32_fits)
    show "0 \<le> inCost ! i + lambdaStep p" using r s by simp
  qed
  have B: "add32 best (lambdaJump p) = best + lambdaJump p" and B0: "0 \<le> best + lambdaJump p"
  proof -
    have "fits32 (best + lambdaJump p)" using best j M(3) by (simp add: fits32_def)
    then show "add32 best (lambdaJump p) = best + lambdaJump p" by (rule add32_fits)
    show "0 \<le> best + lambdaJump p" using best j by simp
  qed
  have outer: "add32 x (uint e) = x + uint e" if "0 \<le> x" "x \<le> M" for x and e :: u8
  proof -
    have "0 \<le> uint e" "uint e \<le> 255" using uint_u8_range[of e] by simp_all
    then have "fits32 (x + uint e)" using that M(1) unfolding fits32_def by linarith
    then show ?thesis by (rule add32_fits)
  qed
  have in0: "0 \<le> inCost ! i" "inCost ! i \<le> M" if "i < D" for i
    using b that len by auto
  have v0: "add32 (min (min (inCost ! 0) (add32 (inCost ! 1) (lambdaStep p)))
                             (add32 best (lambdaJump p))) (uint (error ! 0))
            = min (min (inCost ! 0) (inCost ! 1 + lambdaStep p)) (best + lambdaJump p) + uint (error ! 0)"
  proof -
    have i0: "0 < D" "1 < D" using D2 by simp_all
    have "0 \<le> min (min (inCost ! 0) (inCost ! 1 + lambdaStep p)) (best + lambdaJump p)"
      using in0(1)[OF i0(1)] A0[OF i0(2)] B0 by simp
    moreover have "min (min (inCost ! 0) (inCost ! 1 + lambdaStep p)) (best + lambdaJump p) \<le> M"
      using in0(2)[OF i0(1)] by (simp add: min_le_iff_disj)
    ultimately show ?thesis unfolding A[OF i0(2)] B by (rule outer)
  qed
  have vd: "add32 (min (min (inCost ! (D - 1)) (add32 (inCost ! (D - 2)) (lambdaStep p)))
                             (add32 best (lambdaJump p))) (uint (error ! (D - 1)))
            = min (min (inCost ! (D - 1)) (inCost ! (D - 2) + lambdaStep p)) (best + lambdaJump p)
              + uint (error ! (D - 1))"
  proof -
    have i0: "D - 1 < D" "D - 2 < D" using D2 by simp_all
    have "0 \<le> min (min (inCost ! (D - 1)) (inCost ! (D - 2) + lambdaStep p)) (best + lambdaJump p)"
      using in0(1)[OF i0(1)] A0[OF i0(2)] B0 by simp
    moreover have "min (min (inCost ! (D - 1)) (inCost ! (D - 2) + lambdaStep p)) (best + lambdaJump p) \<le> M"
      using in0(2)[OF i0(1)] by (simp add: min_le_iff_disj)
    ultimately show ?thesis unfolding A[OF i0(2)] B by (rule outer)
  qed
  have vm: "map (\<lambda>i. add32 (min (min (min (inCost ! i) (add32 (inCost ! (i + 1)) (lambdaStep p)))
                                           (add32 (inCost ! (i - 1)) (lambdaStep p)))
                                      (add32 best (lambdaJump p)))
                                 (uint (error ! i))) [1..<D - 1]
          = map (\<lambda>i. min (min (min (inCost ! i) (inCost ! (i + 1) + lambdaStep p))
                                    (inCost ! (i - 1) + lambdaStep p))
                               (best + lambdaJump p) + uint (error ! i)) [1..<D - 1]"
  proof (rule map_cong[OF refl])
    fix i assume "i \<in> set [1..<D - 1]"
    then have i0: "i < D" "i + 1 < D" "i - 1 < D" by auto
    have "0 \<le> min (min (min (inCost ! i) (inCost ! (i + 1) + lambdaStep p))
                                    (inCost ! (i - 1) + lambdaStep p)) (best + lambdaJump p)"
      using in0(1)[OF i0(1)] A0[OF i0(2)] A0[OF i0(3)] B0 by simp
    moreover have "min (min (min (inCost ! i) (inCost ! (i + 1) + lambdaStep p))
                                    (inCost ! (i - 1) + lambdaStep p)) (best + lambdaJump p) \<le> M"
      using in0(2)[OF i0(1)] by (simp add: min_le_iff_disj)
    ultimately show "add32 (min (min (min (inCost ! i) (add32 (inCost ! (i + 1)) (lambdaStep p)))
                                           (add32 (inCost ! (i - 1)) (lambdaStep p)))
                                      (add32 best (lambdaJump p)))
                                 (uint (error ! i))
        = min (min (min (inCost ! i) (inCost ! (i + 1) + lambdaStep p))
                                    (inCost ! (i - 1) + lambdaStep p))
                               (best + lambdaJump p) + uint (error ! i)"
      unfolding A[OF i0(2)] A[OF i0(3)] B by (rule outer)
  qed
  show ?thesis
    unfolding computeDynamicStep_def idealStep_def Let_def D_def[symmetric] best_def[symmetric]
      v0 vd vm by (rule refl)
qed

lemma idealStep_range:
  assumes s: "0 \<le> lambdaStep p" and j: "0 \<le> lambdaJump p"
    and run: "idealStep p prev e = Some out"
    and b: "\<forall>d<length prev. 0 \<le> prev ! d \<and> prev ! d \<le> M"
  shows "\<forall>d<length out. 0 \<le> out ! d \<and> out ! d \<le> M + 255"
proof (intro allI impI)
  note D = idealStep_SomeD[OF run]
  fix d assume "d < length out"
  then have dd: "d < nat (dispMax p)" "d < length prev" using D(2,4) by simp_all
  from dpRecurrence_range[OF s j b dd(2)] D(5) dd(1)
  show "0 \<le> out ! d \<and> out ! d \<le> M + 255" by simp
qed

lemma sweep_eq_ideal:
  assumes s: "0 \<le> lambdaStep p" and j: "0 \<le> lambdaJump p"
  shows "\<forall>d<length prev. 0 \<le> prev ! d \<and> prev ! d \<le> M \<Longrightarrow>
         M + 255 * int (length es) < 2 ^ 31 \<Longrightarrow>
         M + 255 * int (length es) + lambdaStep p < 2 ^ 31 + 255 \<Longrightarrow>
         M + 255 * int (length es) + lambdaJump p < 2 ^ 31 + 255 \<Longrightarrow>
         dynamicSweep p prev es = idealSweep p prev es"
proof (induction es arbitrary: prev M)
  case Nil
  show ?case by simp
next
  case (Cons e es)
  define k where "k = int (length es)"
  have k: "0 \<le> k" by (simp add: k_def)
  have p1: "M + 255 * (k + 1) < 2 ^ 31"
    and p2: "M + 255 * (k + 1) + lambdaStep p < 2 ^ 31 + 255"
    and p3: "M + 255 * (k + 1) + lambdaJump p < 2 ^ 31 + 255"
    using Cons.prems(2,3,4) by (simp_all add: k_def)
  have m: "M + 255 < 2 ^ 31" "M + lambdaStep p < 2 ^ 31" "M + lambdaJump p < 2 ^ 31"
    using p1 p2 p3 k by auto
  have st: "computeDynamicStep p prev e = idealStep p prev e"
    by (rule step_eq_ideal[OF s j Cons.prems(1) m])
  show ?case
  proof (cases "idealStep p prev e")
    case None
    then show ?thesis using st by simp
  next
    case (Some out)
    note o = idealStep_range[OF s j Some Cons.prems(1)]
    have "dynamicSweep p out es = idealSweep p out es"
      by (rule Cons.IH[OF o]) (use Cons.prems(2,3,4) in simp_all)
    then show ?thesis using st Some by simp
  qed
qed

lemma line_eq_ideal:
  assumes s: "0 \<le> lambdaStep p" and j: "0 \<le> lambdaJump p"
    and fl: "255 * int (length line) < 2 ^ 31"
    and fs: "255 * int (length line) + lambdaStep p < 2 ^ 31 + 255"
    and fj: "255 * int (length line) + lambdaJump p < 2 ^ 31 + 255"
  shows "sweepLine p line = idealLine p line"
proof (cases line)
  case Nil
  then show ?thesis by (simp add: sweepLine_def idealLine_def)
next
  case (Cons e es)
  have b: "\<forall>d<length (map uint e). 0 \<le> map uint e ! d \<and> map uint e ! d \<le> 255"
    using uint_u8_range by simp
  have "dynamicSweep p (map uint e) es = idealSweep p (map uint e) es"
    by (rule sweep_eq_ideal[OF s j b]) (use fl fs fj Cons in simp_all)
  then show ?thesis by (simp add: sweepLine_def idealLine_def Cons)
qed

lemma computeDynamicStep_length:
  "computeDynamicStep p inCost error = Some out \<Longrightarrow> length out = nat (dispMax p)"
  by (auto simp: computeDynamicStep_def Let_def split: if_splits)

definition penaltiesFit :: "StereoParameters \<Rightarrow> nat \<Rightarrow> bool" where
  "penaltiesFit p n \<longleftrightarrow>
     0 \<le> lambdaStep p \<and> 0 \<le> lambdaJump p \<and>
     255 * int n + max (lambdaStep p) (lambdaJump p) < 2 ^ 31"

lemma sweepLine_ideal:
  assumes "penaltiesFit p n" "length line = n"
  shows "sweepLine p line = idealLine p line"
proof -
  from assms have s: "0 \<le> lambdaStep p" and j: "0 \<le> lambdaJump p"
    and m: "255 * int (length line) + max (lambdaStep p) (lambdaJump p) < 2 ^ 31"
    by (simp_all add: penaltiesFit_def)
  have "255 * int (length line) < 2 ^ 31"
    "255 * int (length line) + lambdaStep p < 2 ^ 31 + 255"
    "255 * int (length line) + lambdaJump p < 2 ^ 31 + 255"
    using s j m by auto
  then show ?thesis by (rule line_eq_ideal[OF s j])
qed

lemma sweepLine_Some:
  assumes "2 \<le> dispMax p" "line \<noteq> []" "\<forall>e\<in>set line. length e = nat (dispMax p)"
    and "penaltiesFit p n" "length line = n"
  shows "\<exists>T. sweepLine p line = Some T \<and> forwardScan p line T"
  using idealLine_Some[OF assms(1,2,3)] sweepLine_ideal[OF assms(4,5)] by simp


lemma sweepLineBack_Some:
  assumes "2 \<le> dispMax p" "line \<noteq> []" "\<forall>e\<in>set line. length e = nat (dispMax p)"
    and "penaltiesFit p n" "length line = n"
  shows "\<exists>T. sweepLineBack p line = Some T \<and> backwardScan p line T"
proof -
  have "rev line \<noteq> []" "\<forall>e\<in>set (rev line). length e = nat (dispMax p)"
    "penaltiesFit p n" "length (rev line) = n"
    using assms by auto
  from sweepLine_Some[OF assms(1) this]
  obtain T where T: "sweepLine p (rev line) = Some T" "forwardScan p (rev line) T" by blast
  have len: "length T = length line" using T(2) by (simp add: forwardScan_def)
  have "backwardScan p line (rev T)"
    unfolding backwardScan_def
  proof (intro conjI allI impI)
    show "length (rev T) = length line" using len by simp
  next
    fix i assume i: "i < length line"
    then have j: "length line - Suc i < length (rev line)" by simp
    from T(2) j have "length (T ! (length line - Suc i)) = nat (dispMax p)"
      unfolding forwardScan_def by blast
    then show "length (rev T ! i) = nat (dispMax p)"
      using i len by (simp add: rev_nth)
  next
    fix i d assume i: "i < length line" and d: "d < nat (dispMax p)"
    let ?j = "length line - Suc i"
    have j: "?j < length (rev line)" using i by simp
    from T(2) j d have eq: "T ! ?j ! d =
        (if ?j = 0 then uint (rev line ! ?j ! d) else dpRecurrence p (T ! (?j - 1)) (rev line ! ?j) d)"
      unfolding forwardScan_def by blast
    have r1: "rev T ! i = T ! ?j" using i len by (simp add: rev_nth)
    have r2: "rev line ! ?j = line ! i" using i by (simp add: rev_nth)
    show "rev T ! i ! d =
         (if i + 1 = length line then uint (line ! i ! d)
          else dpRecurrence p (rev T ! (i + 1)) (line ! i) d)"
    proof (cases "i + 1 = length line")
      case True
      then have "?j = 0" by simp
      with eq r1 r2 True show ?thesis by simp
    next
      case False
      then have lt: "i + 1 < length line" using i by simp
      then have "rev T ! (i + 1) = T ! (?j - 1)" using len by (simp add: rev_nth)
      moreover have "?j \<noteq> 0" using lt by simp
      ultimately show ?thesis using eq r1 r2 False by simp
    qed
  qed
  with T(1) show ?thesis by (auto simp: sweepLineBack_def)
qed


lemma allLines_map:
  assumes "\<forall>i<n. \<exists>y. f i = Some y"
  shows "allLines (map f [0..<n]) = Some (map (\<lambda>i. the (f i)) [0..<n])"
proof -
  have "\<forall>x\<in>set xs. \<exists>y. f x = Some y \<Longrightarrow> allLines (map f xs) = Some (map (\<lambda>i. the (f i)) xs)" for xs
    by (induction xs) auto
  then show ?thesis using assms by simp
qed

subsection \<open>The four sweeps\<close>

lemma volumeShape_nth:
  assumes "volumeShape p vol" "v < nat (dispHeight p)"
  shows "length (vol ! v) = nat (dispWidth p)"
    and "\<forall>e\<in>set (vol ! v). length e = nat (dispMax p)"
  using assms by (auto simp: volumeShape_def list_all_length in_set_conv_nth)

lemma volumeShape_column:
  assumes "volumeShape p vol" "u < nat (dispWidth p)"
  shows "length (column vol u) = nat (dispHeight p)"
    and "\<forall>e\<in>set (column vol u). length e = nat (dispMax p)"
    and "v < nat (dispHeight p) \<Longrightarrow> column vol u ! v = vol ! v ! u"
  using assms by (auto simp: volumeShape_def column_def list_all_length in_set_conv_nth)

lemma fromColumns_nth:
  "v < H \<Longrightarrow> u < W \<Longrightarrow> fromColumns H W cols ! v ! u = cols ! u ! v"
  by (simp add: fromColumns_def)

text \<open>
  Claim C2, as the code has it.  On a non-empty working grid with \<open>dispMax \<ge> 2\<close> and
  non-negative penalties such that \<open>255 max(dispWidth, dispHeight)\<close> plus the larger
  penalty is below \<open>2\<^sup>3\<^sup>1\<close> (so that no 32-bit sum of a step wraps),
  \<^verbatim>\<open>computeDynamicProgramming\<close> completes, and in each of the four scan directions
  (increasing column, decreasing column, increasing row, decreasing row) the first block of
  every scan is the raw cost and every later entry is
  \<open>cost[d] + min(T_prev[d], T_prev[d-1] + lambdaStep, T_prev[d+1] + lambdaStep,
  min T_prev + lambdaJump)\<close>, a boundary disparity leaving out the neighbour it lacks.
  The bound on \<open>dispMax\<close> is needed, as the run on \<open>stereoD1\<close> below shows; without the
  bound on the penalties a sum \<^verbatim>\<open>bestCost + params.lambdaJump\<close> wraps, as the run on
  \<open>stereoJump\<close> further below shows.
\<close>

theorem dp_sweeps_recurrence:
  assumes D: "2 \<le> dispMax (params st)"
    and W: "0 < dispWidth (params st)" and H: "0 < dispHeight (params st)"
    and shape: "volumeShape (params st) (errorBuffer st)"
    and pen: "0 \<le> lambdaStep (params st)" "0 \<le> lambdaJump (params st)"
    and fit: "255 * max (dispWidth (params st)) (dispHeight (params st))
              + max (lambdaStep (params st)) (lambdaJump (params st)) < 2 ^ 31"
  shows "\<exists>st'. computeDynamicProgramming st = Some st' \<and> errorBuffer st' = errorBuffer st \<and>
    (\<forall>v<nat (dispHeight (params st)). \<forall>u<nat (dispWidth (params st)). \<forall>d<nat (dispMax (params st)).
       tableauLeft st' ! v ! u ! d =
         (if u = 0 then uint (errorBuffer st ! v ! u ! d)
          else dpRecurrence (params st) (tableauLeft st' ! v ! (u - 1)) (errorBuffer st ! v ! u) d) \<and>
       tableauRight st' ! v ! u ! d =
         (if u + 1 = nat (dispWidth (params st)) then uint (errorBuffer st ! v ! u ! d)
          else dpRecurrence (params st) (tableauRight st' ! v ! (u + 1)) (errorBuffer st ! v ! u) d) \<and>
       tableauTop st' ! v ! u ! d =
         (if v = 0 then uint (errorBuffer st ! v ! u ! d)
          else dpRecurrence (params st) (tableauTop st' ! (v - 1) ! u) (errorBuffer st ! v ! u) d) \<and>
       tableauBottom st' ! v ! u ! d =
         (if v + 1 = nat (dispHeight (params st)) then uint (errorBuffer st ! v ! u ! d)
          else dpRecurrence (params st) (tableauBottom st' ! (v + 1) ! u) (errorBuffer st ! v ! u) d))"
proof -
  define p where "p = params st"
  define err where "err = errorBuffer st"
  define Wn where "Wn = nat (dispWidth p)"
  define Hn where "Hn = nat (dispHeight p)"
  define Dn where "Dn = nat (dispMax p)"
  have shp: "volumeShape p err" using shape by (simp add: p_def err_def)
  have D2: "2 \<le> dispMax p" using D by (simp add: p_def)
  have Wpos: "0 < Wn" and Hpos: "0 < Hn" using W H by (simp_all add: Wn_def Hn_def p_def)
  have "int Wn = dispWidth (params st)" "int Hn = dispHeight (params st)"
    using W H by (simp_all add: Wn_def Hn_def p_def)
  then have fitW: "penaltiesFit p Wn" and fitH: "penaltiesFit p Hn"
    using pen fit by (simp_all add: penaltiesFit_def p_def)
  have rowok: "err ! v \<noteq> []" "\<forall>e\<in>set (err ! v). length e = nat (dispMax p)" "length (err ! v) = Wn"
    if "v < Hn" for v
  proof -
    from that have v: "v < nat (dispHeight p)" by (simp add: Hn_def)
    show "length (err ! v) = Wn" using volumeShape_nth(1)[OF shp v] by (simp add: Wn_def)
    with Wpos show "err ! v \<noteq> []" by auto
    show "\<forall>e\<in>set (err ! v). length e = nat (dispMax p)" using volumeShape_nth(2)[OF shp v] .
  qed
  have colok: "column err u \<noteq> []" "\<forall>e\<in>set (column err u). length e = nat (dispMax p)"
    "length (column err u) = Hn"
    if "u < Wn" for u
  proof -
    from that have u: "u < nat (dispWidth p)" by (simp add: Wn_def)
    show "length (column err u) = Hn" using volumeShape_column(1)[OF shp u] by (simp add: Hn_def)
    with Hpos show "column err u \<noteq> []" by auto
    show "\<forall>e\<in>set (column err u). length e = nat (dispMax p)" using volumeShape_column(2)[OF shp u] .
  qed
  have colnth: "column err u ! v = err ! v ! u" if "u < Wn" "v < Hn" for u v
    using volumeShape_column(3)[OF shp] that by (simp add: Hn_def Wn_def)
  define L where "L = (\<lambda>v. the (sweepLine p (err ! v)))"
  define R where "R = (\<lambda>v. the (sweepLineBack p (err ! v)))"
  define T where "T = (\<lambda>u. the (sweepLine p (column err u)))"
  define B where "B = (\<lambda>u. the (sweepLineBack p (column err u)))"
  have Lp: "sweepLine p (err ! v) = Some (L v) \<and> forwardScan p (err ! v) (L v)" if "v < Hn" for v
    using sweepLine_Some[OF D2 rowok(1,2)[OF that] fitW rowok(3)[OF that]] by (auto simp: L_def)
  have Rp: "sweepLineBack p (err ! v) = Some (R v) \<and> backwardScan p (err ! v) (R v)" if "v < Hn" for v
    using sweepLineBack_Some[OF D2 rowok(1,2)[OF that] fitW rowok(3)[OF that]] by (auto simp: R_def)
  have Tp: "sweepLine p (column err u) = Some (T u) \<and> forwardScan p (column err u) (T u)" if "u < Wn" for u
    using sweepLine_Some[OF D2 colok(1,2)[OF that] fitH colok(3)[OF that]] by (auto simp: T_def)
  have Bp: "sweepLineBack p (column err u) = Some (B u) \<and> backwardScan p (column err u) (B u)" if "u < Wn" for u
    using sweepLineBack_Some[OF D2 colok(1,2)[OF that] fitH colok(3)[OF that]] by (auto simp: B_def)
  have a1: "allLines (map (\<lambda>v. sweepLine p (err ! v)) [0..<Hn]) = Some (map L [0..<Hn])"
    unfolding L_def by (rule allLines_map) (use Lp in blast)
  have a2: "allLines (map (\<lambda>v. sweepLineBack p (err ! v)) [0..<Hn]) = Some (map R [0..<Hn])"
    unfolding R_def by (rule allLines_map) (use Rp in blast)
  have a3: "allLines (map (\<lambda>u. sweepLine p (column err u)) [0..<Wn]) = Some (map T [0..<Wn])"
    unfolding T_def by (rule allLines_map) (use Tp in blast)
  have a4: "allLines (map (\<lambda>u. sweepLineBack p (column err u)) [0..<Wn]) = Some (map B [0..<Wn])"
    unfolding B_def by (rule allLines_map) (use Bp in blast)
  define st' where "st' = st\<lparr>tableauLeft := map L [0..<Hn], tableauRight := map R [0..<Hn],
      tableauTop := fromColumns Hn Wn (map T [0..<Wn]),
      tableauBottom := fromColumns Hn Wn (map B [0..<Wn])\<rparr>"
  have run: "computeDynamicProgramming st = Some st'"
    using shp a1 a2 a3 a4
    by (simp add: computeDynamicProgramming_def Let_def p_def[symmetric] err_def[symmetric]
        Wn_def[symmetric] Hn_def[symmetric] st'_def)
  have ent: "tableauLeft st' ! v ! u ! d =
         (if u = 0 then uint (err ! v ! u ! d)
          else dpRecurrence p (tableauLeft st' ! v ! (u - 1)) (err ! v ! u) d) \<and>
       tableauRight st' ! v ! u ! d =
         (if u + 1 = Wn then uint (err ! v ! u ! d)
          else dpRecurrence p (tableauRight st' ! v ! (u + 1)) (err ! v ! u) d) \<and>
       tableauTop st' ! v ! u ! d =
         (if v = 0 then uint (err ! v ! u ! d)
          else dpRecurrence p (tableauTop st' ! (v - 1) ! u) (err ! v ! u) d) \<and>
       tableauBottom st' ! v ! u ! d =
         (if v + 1 = Hn then uint (err ! v ! u ! d)
          else dpRecurrence p (tableauBottom st' ! (v + 1) ! u) (err ! v ! u) d)"
    if v: "v < Hn" and u: "u < Wn" and d: "d < Dn" for v u d
  proof (intro conjI)
    have "forwardScan p (err ! v) (L v)" using Lp[OF v] by simp
    then show "tableauLeft st' ! v ! u ! d =
         (if u = 0 then uint (err ! v ! u ! d)
          else dpRecurrence p (tableauLeft st' ! v ! (u - 1)) (err ! v ! u) d)"
      using v u d rowok(3)[OF v] by (simp add: st'_def forwardScan_def Dn_def)
  next
    have "backwardScan p (err ! v) (R v)" using Rp[OF v] by simp
    then show "tableauRight st' ! v ! u ! d =
         (if u + 1 = Wn then uint (err ! v ! u ! d)
          else dpRecurrence p (tableauRight st' ! v ! (u + 1)) (err ! v ! u) d)"
      using v u d rowok(3)[OF v] by (simp add: st'_def backwardScan_def Dn_def)
  next
    have fs: "forwardScan p (column err u) (T u)" using Tp[OF u] by simp
    have "T u ! v ! d = (if v = 0 then uint (column err u ! v ! d)
          else dpRecurrence p (T u ! (v - 1)) (column err u ! v) d)"
      using fs v d colok(3)[OF u] by (simp add: forwardScan_def Dn_def)
    then show "tableauTop st' ! v ! u ! d =
         (if v = 0 then uint (err ! v ! u ! d)
          else dpRecurrence p (tableauTop st' ! (v - 1) ! u) (err ! v ! u) d)"
      using v u colnth[OF u v] by (cases "v = 0") (simp_all add: st'_def fromColumns_nth)
  next
    have bs: "backwardScan p (column err u) (B u)" using Bp[OF u] by simp
    have "B u ! v ! d = (if v + 1 = Hn then uint (column err u ! v ! d)
          else dpRecurrence p (B u ! (v + 1)) (column err u ! v) d)"
      using bs v d colok(3)[OF u] by (simp add: backwardScan_def Dn_def)
    then show "tableauBottom st' ! v ! u ! d =
         (if v + 1 = Hn then uint (err ! v ! u ! d)
          else dpRecurrence p (tableauBottom st' ! (v + 1) ! u) (err ! v ! u) d)"
      using v u colnth[OF u v] by (cases "v + 1 = Hn") (simp_all add: st'_def fromColumns_nth)
  qed
  have "errorBuffer st' = errorBuffer st" by (simp add: st'_def)
  with run ent show ?thesis
    unfolding p_def err_def Wn_def Hn_def Dn_def by blast
qed

text \<open>A run on a 3 by 2 grid with three disparities, evaluated by the kernel.\<close>

definition paramsC2 :: StereoParameters where
  "paramsC2 = \<lparr>dispWidth = 3, dispHeight = 2, dispMax = 3, lambdaStep = 1, lambdaJump = 4,
      scale = 3, maxBias = 10, maxDistance = 100\<rparr>"

definition stereoC2 :: EnhancedStereo where
  "stereoC2 = \<lparr>params = paramsC2,
      errorBuffer = [[[1, 2, 3], [9, 0, 7], [3, 3, 3]], [[5, 5, 5], [0, 200, 255], [1, 0, 1]]],
      tableauLeft = [], tableauRight = [], tableauTop = [], tableauBottom = [],
      smallDisparity = []\<rparr>"

lemma stereoC2_run:
  "computeDynamicProgramming stereoC2 = Some (stereoC2\<lparr>
     tableauLeft := [[[1, 2, 3], [10, 2, 10], [6, 5, 6]], [[5, 5, 5], [5, 205, 260], [6, 6, 10]]],
     tableauRight := [[[5, 5, 7], [12, 3, 10], [3, 3, 3]], [[6, 7, 10], [1, 200, 256], [1, 0, 1]]],
     tableauTop := [[[1, 2, 3], [9, 0, 7], [3, 3, 3]], [[6, 7, 8], [1, 200, 256], [4, 3, 4]]],
     tableauBottom := [[[6, 7, 8], [9, 1, 11], [4, 3, 4]], [[5, 5, 5], [0, 200, 255], [1, 0, 1]]]\<rparr>)"
  by code_simp

theorem dp_sweeps_recurrence_witness:
  "2 \<le> dispMax (params stereoC2) \<and> 0 < dispWidth (params stereoC2) \<and>
   0 < dispHeight (params stereoC2) \<and> volumeShape (params stereoC2) (errorBuffer stereoC2) \<and>
   0 \<le> lambdaStep (params stereoC2) \<and> 0 \<le> lambdaJump (params stereoC2) \<and>
   255 * max (dispWidth (params stereoC2)) (dispHeight (params stereoC2))
     + max (lambdaStep (params stereoC2)) (lambdaJump (params stereoC2)) < 2 ^ 31 \<and>
   (\<exists>st'. computeDynamicProgramming stereoC2 = Some st' \<and>
      tableauLeft st' ! 0 ! 1 ! 0 =
        dpRecurrence (params stereoC2) (tableauLeft st' ! 0 ! 0) (errorBuffer stereoC2 ! 0 ! 1) 0 \<and>
      tableauBottom st' ! 0 ! 1 ! 2 =
        dpRecurrence (params stereoC2) (tableauBottom st' ! 1 ! 1) (errorBuffer stereoC2 ! 0 ! 1) 2 \<and>
      tableauLeft st' ! 0 ! 1 = [10, 2, 10] \<and> tableauBottom st' ! 0 ! 1 = [9, 1, 11])"
proof -
  have h1: "2 \<le> dispMax (params stereoC2)" by (simp add: stereoC2_def paramsC2_def)
  have h2: "0 < dispWidth (params stereoC2)" by (simp add: stereoC2_def paramsC2_def)
  have h3: "0 < dispHeight (params stereoC2)" by (simp add: stereoC2_def paramsC2_def)
  have h4: "volumeShape (params stereoC2) (errorBuffer stereoC2)"
    by (simp add: volumeShape_def stereoC2_def paramsC2_def)
  have h5: "0 \<le> lambdaStep (params stereoC2)" and h6: "0 \<le> lambdaJump (params stereoC2)"
    and h7: "255 * max (dispWidth (params stereoC2)) (dispHeight (params stereoC2))
              + max (lambdaStep (params stereoC2)) (lambdaJump (params stereoC2)) < 2 ^ 31"
    by (simp_all add: stereoC2_def paramsC2_def)
  from dp_sweeps_recurrence[OF h1 h2 h3 h4 h5 h6 h7] obtain st' where
    st': "computeDynamicProgramming stereoC2 = Some st'"
    and rec: "\<And>v u d. v < nat (dispHeight (params stereoC2)) \<Longrightarrow>
       u < nat (dispWidth (params stereoC2)) \<Longrightarrow> d < nat (dispMax (params stereoC2)) \<Longrightarrow>
       tableauLeft st' ! v ! u ! d =
         (if u = 0 then uint (errorBuffer stereoC2 ! v ! u ! d)
          else dpRecurrence (params stereoC2) (tableauLeft st' ! v ! (u - 1)) (errorBuffer stereoC2 ! v ! u) d) \<and>
       tableauBottom st' ! v ! u ! d =
         (if v + 1 = nat (dispHeight (params stereoC2)) then uint (errorBuffer stereoC2 ! v ! u ! d)
          else dpRecurrence (params stereoC2) (tableauBottom st' ! (v + 1) ! u) (errorBuffer stereoC2 ! v ! u) d)"
    by blast
  have dims: "nat (dispHeight (params stereoC2)) = 2" "nat (dispWidth (params stereoC2)) = 3"
    "nat (dispMax (params stereoC2)) = 3" by (simp_all add: stereoC2_def paramsC2_def)
  have r1: "tableauLeft st' ! 0 ! 1 ! 0 =
      dpRecurrence (params stereoC2) (tableauLeft st' ! 0 ! 0) (errorBuffer stereoC2 ! 0 ! 1) 0"
    using rec[of 0 1 0] by (simp add: dims)
  have r2: "tableauBottom st' ! 0 ! 1 ! 2 =
      dpRecurrence (params stereoC2) (tableauBottom st' ! 1 ! 1) (errorBuffer stereoC2 ! 0 ! 1) 2"
    using rec[of 0 1 2] by (simp add: dims)
  have vals: "tableauLeft st' ! 0 ! 1 = [10, 2, 10]" "tableauBottom st' ! 0 ! 1 = [9, 1, 11]"
    using st' by (auto simp: stereoC2_run)
  from h1 h2 h3 h4 h5 h6 h7 st' r1 r2 vals show ?thesis by blast
qed

text \<open>
  With \<open>dispMax = 1\<close> the step reads \<^verbatim>\<open>inCost[1]\<close> and \<^verbatim>\<open>inCost[-1]\<close>, entries
  that do not belong to the block of the previous pixel: the code does not leave the
  missing neighbours out, and the sweep over a line of two pixels has no defined result.
\<close>

definition stereoD1 :: EnhancedStereo where
  "stereoD1 = \<lparr>params = \<lparr>dispWidth = 2, dispHeight = 1, dispMax = 1, lambdaStep = 1,
        lambdaJump = 4, scale = 3, maxBias = 10, maxDistance = 100\<rparr>,
      errorBuffer = [[[3], [5]]],
      tableauLeft = [], tableauRight = [], tableauTop = [], tableauBottom = [],
      smallDisparity = []\<rparr>"

lemma stereoD1_run: "computeDynamicProgramming stereoD1 = None"
  by code_simp

theorem dp_recurrence_dispMax1_counterexample:
  "\<not> (\<exists>st'. computeDynamicProgramming stereoD1 = Some st' \<and>
        tableauLeft st' ! 0 ! 1 ! 0 =
          dpRecurrence (params stereoD1) (tableauLeft st' ! 0 ! 0) (errorBuffer stereoD1 ! 0 ! 1) 0)"
  by (simp add: stereoD1_run)


subsection \<open>Monotonicity in the jump penalty\<close>

lemma sweepLine_mono:
  assumes j: "lambdaJump p1 \<le> lambdaJump p2" and s: "lambdaStep p1 = lambdaStep p2"
    and D: "dispMax p1 = dispMax p2"
    and f1: "penaltiesFit p1 n" and f2: "penaltiesFit p2 n" and n: "length line = n"
    and "sweepLine p1 line = Some t1" "sweepLine p2 line = Some t2"
  shows "list_all2 (list_all2 (\<le>)) t1 t2"
proof -
  have "idealLine p1 line = Some t1" "idealLine p2 line = Some t2"
    using assms(7,8) sweepLine_ideal[OF f1 n] sweepLine_ideal[OF f2 n] by simp_all
  then show ?thesis by (rule idealLine_mono[OF j s D])
qed

lemma sweepLineBack_mono:
  assumes j: "lambdaJump p1 \<le> lambdaJump p2" and s: "lambdaStep p1 = lambdaStep p2"
    and D: "dispMax p1 = dispMax p2"
    and f1: "penaltiesFit p1 n" and f2: "penaltiesFit p2 n" and n: "length line = n"
    and "sweepLineBack p1 line = Some t1" "sweepLineBack p2 line = Some t2"
  shows "list_all2 (list_all2 (\<le>)) t1 t2"
proof -
  from assms(7) obtain r1 where 1: "sweepLine p1 (rev line) = Some r1" "t1 = rev r1"
    by (auto simp: sweepLineBack_def)
  from assms(8) obtain r2 where 2: "sweepLine p2 (rev line) = Some r2" "t2 = rev r2"
    by (auto simp: sweepLineBack_def)
  have n': "length (rev line) = n" using n by simp
  from sweepLine_mono[OF j s D f1 f2 n' 1(1) 2(1)] show ?thesis by (simp add: 1(2) 2(2))
qed

lemma allLines_SomeD:
  "allLines xs = Some ys \<Longrightarrow> length ys = length xs \<and> (\<forall>i<length xs. xs ! i = Some (ys ! i))"
proof (induction xs arbitrary: ys)
  case Nil
  then show ?case by simp
next
  case (Cons x xs)
  then obtain y r where "x = Some y" "allLines xs = Some r" "ys = y # r"
    by (cases x) (auto split: option.splits)
  with Cons.IH[of r] show ?case by (auto simp: nth_Cons')
qed


lemma dynamicSweep_lengths:
  "dynamicSweep p prev es = Some ts \<Longrightarrow>
     length ts = length es \<and> (\<forall>i<length es. length (ts ! i) = nat (dispMax p))"
proof (induction es arbitrary: prev ts)
  case Nil
  then show ?case by simp
next
  case (Cons e es)
  from Cons.prems obtain out r where 1: "computeDynamicStep p prev e = Some out"
    "dynamicSweep p out es = Some r" "ts = out # r"
    by (auto split: option.splits)
  from Cons.IH[OF 1(2)] computeDynamicStep_length[OF 1(1)] show ?case
    by (auto simp: 1(3) nth_Cons')
qed

lemma sweepLine_lengths:
  assumes "sweepLine p line = Some T" "\<forall>e\<in>set line. length e = nat (dispMax p)"
  shows "length T = length line" "\<forall>i<length line. length (T ! i) = nat (dispMax p)"
proof -
  obtain e es where line: "line = e # es" using assms(1) by (cases line) (auto simp: sweepLine_def)
  from assms(1) obtain r where 1: "dynamicSweep p (map uint e) es = Some r" "T = map uint e # r"
    by (auto simp: sweepLine_def line split: option.splits)
  from dynamicSweep_lengths[OF 1(1)] assms(2)
  show "length T = length line" "\<forall>i<length line. length (T ! i) = nat (dispMax p)"
    by (auto simp: 1(2) line nth_Cons')
qed

lemma sweepLineBack_lengths:
  assumes "sweepLineBack p line = Some T" "\<forall>e\<in>set line. length e = nat (dispMax p)"
  shows "length T = length line" "\<forall>i<length line. length (T ! i) = nat (dispMax p)"
proof -
  from assms(1) obtain r where 1: "sweepLine p (rev line) = Some r" "T = rev r"
    by (auto simp: sweepLineBack_def)
  have "\<forall>e\<in>set (rev line). length e = nat (dispMax p)" using assms(2) by simp
  note l = sweepLine_lengths[OF 1(1) this]
  show "length T = length line" using l(1) by (simp add: 1(2))
  show "\<forall>i<length line. length (T ! i) = nat (dispMax p)"
    using l by (simp add: 1(2) rev_nth)
qed

lemma computeDynamicProgramming_SomeD:
  assumes "computeDynamicProgramming st = Some st'"
  defines "p \<equiv> params st" and "err \<equiv> errorBuffer st"
  shows "volumeShape p err"
    and "v < nat (dispHeight p) \<Longrightarrow> sweepLine p (err ! v) = Some (tableauLeft st' ! v)"
    and "v < nat (dispHeight p) \<Longrightarrow> sweepLineBack p (err ! v) = Some (tableauRight st' ! v)"
    and "u < nat (dispWidth p) \<Longrightarrow> \<exists>T. sweepLine p (column err u) = Some T \<and>
           (\<forall>v<nat (dispHeight p). tableauTop st' ! v ! u = T ! v)"
    and "u < nat (dispWidth p) \<Longrightarrow> \<exists>B. sweepLineBack p (column err u) = Some B \<and>
           (\<forall>v<nat (dispHeight p). tableauBottom st' ! v ! u = B ! v)"
proof -
  define W where "W = nat (dispWidth p)"
  define H where "H = nat (dispHeight p)"
  from assms(1) have shp: "volumeShape p err"
    by (auto simp: computeDynamicProgramming_def Let_def p_def err_def split: if_splits)
  with assms(1) obtain tLeft tRight tTop tBottom where
    l: "allLines (map (\<lambda>v. sweepLine p (err ! v)) [0..<H]) = Some tLeft" and
    r: "allLines (map (\<lambda>v. sweepLineBack p (err ! v)) [0..<H]) = Some tRight" and
    t: "allLines (map (\<lambda>u. sweepLine p (column err u)) [0..<W]) = Some tTop" and
    b: "allLines (map (\<lambda>u. sweepLineBack p (column err u)) [0..<W]) = Some tBottom" and
    st': "st' = st\<lparr>tableauLeft := tLeft, tableauRight := tRight,
                  tableauTop := fromColumns H W tTop,
                  tableauBottom := fromColumns H W tBottom\<rparr>"
    by (auto simp: computeDynamicProgramming_def Let_def p_def[symmetric] err_def[symmetric]
        W_def H_def bind_eq_Some_conv)
  show "volumeShape p err" by (rule shp)
  show "sweepLine p (err ! v) = Some (tableauLeft st' ! v)" if "v < nat (dispHeight p)"
    using allLines_SomeD[OF l] that by (simp add: st' H_def)
  show "sweepLineBack p (err ! v) = Some (tableauRight st' ! v)" if "v < nat (dispHeight p)"
    using allLines_SomeD[OF r] that by (simp add: st' H_def)
  show "\<exists>T. sweepLine p (column err u) = Some T \<and>
           (\<forall>v<nat (dispHeight p). tableauTop st' ! v ! u = T ! v)" if "u < nat (dispWidth p)"
  proof -
    have "sweepLine p (column err u) = Some (tTop ! u)"
      using allLines_SomeD[OF t] that by (simp add: W_def)
    moreover have "\<forall>v<nat (dispHeight p). tableauTop st' ! v ! u = tTop ! u ! v"
      using that by (simp add: st' fromColumns_nth H_def W_def)
    ultimately show ?thesis by blast
  qed
  show "\<exists>B. sweepLineBack p (column err u) = Some B \<and>
           (\<forall>v<nat (dispHeight p). tableauBottom st' ! v ! u = B ! v)" if "u < nat (dispWidth p)"
  proof -
    have "sweepLineBack p (column err u) = Some (tBottom ! u)"
      using allLines_SomeD[OF b] that by (simp add: W_def)
    moreover have "\<forall>v<nat (dispHeight p). tableauBottom st' ! v ! u = tBottom ! u ! v"
      using that by (simp add: st' fromColumns_nth H_def W_def)
    ultimately show ?thesis by blast
  qed
qed

text \<open>
  Claim C7, as the code has it.  For one cost volume, a non-negative step penalty and two
  jump penalties \<open>0 \<le> j1 \<le> j2\<close> such that \<open>255 max(dispWidth, dispHeight)\<close> plus the larger
  of \<open>lambdaStep\<close> and \<open>j2\<close> is below \<open>2\<^sup>3\<^sup>1\<close>, every entry of each of the four tableaus
  computed with \<open>lambdaJump = j2\<close> is at least the entry computed with \<open>lambdaJump = j1\<close>.
  Without the bound the sum \<^verbatim>\<open>bestCost + params.lambdaJump\<close> wraps and the greater
  penalty gives the smaller entry, as the run on \<open>stereoJump\<close> below shows.
\<close>

theorem lambdaJump_monotone:
  assumes j: "j1 \<le> j2" and j0: "0 \<le> j1" and s0: "0 \<le> lambdaStep (params st)"
    and fit: "255 * max (dispWidth (params st)) (dispHeight (params st))
              + max (lambdaStep (params st)) j2 < 2 ^ 31"
    and r1: "computeDynamicProgramming (st\<lparr>params := (params st)\<lparr>lambdaJump := j1\<rparr>\<rparr>) = Some s1"
    and r2: "computeDynamicProgramming (st\<lparr>params := (params st)\<lparr>lambdaJump := j2\<rparr>\<rparr>) = Some s2"
    and v: "v < nat (dispHeight (params st))" and u: "u < nat (dispWidth (params st))"
    and d: "d < nat (dispMax (params st))"
  shows "tableauLeft s1 ! v ! u ! d \<le> tableauLeft s2 ! v ! u ! d \<and>
         tableauRight s1 ! v ! u ! d \<le> tableauRight s2 ! v ! u ! d \<and>
         tableauTop s1 ! v ! u ! d \<le> tableauTop s2 ! v ! u ! d \<and>
         tableauBottom s1 ! v ! u ! d \<le> tableauBottom s2 ! v ! u ! d"
proof -
  define p1 where "p1 = (params st)\<lparr>lambdaJump := j1\<rparr>"
  define p2 where "p2 = (params st)\<lparr>lambdaJump := j2\<rparr>"
  define err where "err = errorBuffer st"
  have jj: "lambdaJump p1 \<le> lambdaJump p2" and ss: "lambdaStep p1 = lambdaStep p2"
    and DD: "dispMax p1 = dispMax p2" using j by (simp_all add: p1_def p2_def)
  have WH: "int (nat (dispWidth (params st))) = dispWidth (params st)"
    "int (nat (dispHeight (params st))) = dispHeight (params st)" using u v by simp_all
  have fW1: "penaltiesFit p1 (nat (dispWidth p1))" and fW2: "penaltiesFit p2 (nat (dispWidth p1))"
    and fH1: "penaltiesFit p1 (nat (dispHeight p1))" and fH2: "penaltiesFit p2 (nat (dispHeight p1))"
    using j j0 s0 fit WH by (simp_all add: penaltiesFit_def p1_def p2_def)
  have v1: "v < nat (dispHeight p1)" and u1: "u < nat (dispWidth p1)" and d1: "d < nat (dispMax p1)"
    and v2: "v < nat (dispHeight p2)" and u2: "u < nat (dispWidth p2)"
    using v u d by (simp_all add: p1_def p2_def)
  note A = computeDynamicProgramming_SomeD[OF r1, simplified, folded p1_def err_def]
  note B = computeDynamicProgramming_SomeD[OF r2, simplified, folded p2_def err_def]
  have rowlen: "length (err ! v) = nat (dispWidth p1)" and rowblk: "\<forall>e\<in>set (err ! v). length e = nat (dispMax p1)"
    using volumeShape_nth[OF A(1) v1] by simp_all
  have collen: "length (column err u) = nat (dispHeight p1)"
    and colblk: "\<forall>e\<in>set (column err u). length e = nat (dispMax p1)"
    using volumeShape_column(1,2)[OF A(1) u1] by simp_all
  have pick: "T1 ! i ! d \<le> T2 ! i ! d"
    if "list_all2 (list_all2 (\<le>)) T1 T2" "i < length T1" "d < length (T1 ! i)" for T1 T2 :: "int list list" and i
    using that by (meson list_all2_nthD)
  have left: "tableauLeft s1 ! v ! u ! d \<le> tableauLeft s2 ! v ! u ! d"
  proof -
    note l = sweepLine_lengths[OF A(2)[OF v] rowblk]
    from sweepLine_mono[OF jj ss DD fW1 fW2 rowlen A(2)[OF v] B(2)[OF v]]
    show ?thesis using l u1 d1 rowlen by (intro pick) auto
  qed
  have right: "tableauRight s1 ! v ! u ! d \<le> tableauRight s2 ! v ! u ! d"
  proof -
    note l = sweepLineBack_lengths[OF A(3)[OF v] rowblk]
    from sweepLineBack_mono[OF jj ss DD fW1 fW2 rowlen A(3)[OF v] B(3)[OF v]]
    show ?thesis using l u1 d1 rowlen by (intro pick) auto
  qed
  have top: "tableauTop s1 ! v ! u ! d \<le> tableauTop s2 ! v ! u ! d"
  proof -
    from A(4)[OF u] obtain T1 where T1: "sweepLine p1 (column err u) = Some T1"
      "\<forall>v<nat (dispHeight (params st)). tableauTop s1 ! v ! u = T1 ! v" by blast
    from B(4)[OF u] obtain T2 where T2: "sweepLine p2 (column err u) = Some T2"
      "\<forall>v<nat (dispHeight (params st)). tableauTop s2 ! v ! u = T2 ! v" by blast
    note l = sweepLine_lengths[OF T1(1) colblk]
    from sweepLine_mono[OF jj ss DD fH1 fH2 collen T1(1) T2(1)]
    have "T1 ! v ! d \<le> T2 ! v ! d" using l v1 d1 collen by (intro pick) auto
    then show ?thesis using T1(2) T2(2) v by simp
  qed
  have bottom: "tableauBottom s1 ! v ! u ! d \<le> tableauBottom s2 ! v ! u ! d"
  proof -
    from A(5)[OF u] obtain T1 where T1: "sweepLineBack p1 (column err u) = Some T1"
      "\<forall>v<nat (dispHeight (params st)). tableauBottom s1 ! v ! u = T1 ! v" by blast
    from B(5)[OF u] obtain T2 where T2: "sweepLineBack p2 (column err u) = Some T2"
      "\<forall>v<nat (dispHeight (params st)). tableauBottom s2 ! v ! u = T2 ! v" by blast
    note l = sweepLineBack_lengths[OF T1(1) colblk]
    from sweepLineBack_mono[OF jj ss DD fH1 fH2 collen T1(1) T2(1)]
    have "T1 ! v ! d \<le> T2 ! v ! d" using l v1 d1 collen by (intro pick) auto
    then show ?thesis using T1(2) T2(2) v by simp
  qed
  from left right top bottom show ?thesis by simp
qed


text \<open>A line where the jump penalty decides an entry: 4 against 9 at disparity 2.\<close>

definition stereoC7 :: EnhancedStereo where
  "stereoC7 = \<lparr>params = \<lparr>dispWidth = 2, dispHeight = 1, dispMax = 3, lambdaStep = 1,
        lambdaJump = 0, scale = 3, maxBias = 10, maxDistance = 100\<rparr>,
      errorBuffer = [[[0, 50, 50], [50, 50, 0]]],
      tableauLeft = [], tableauRight = [], tableauTop = [], tableauBottom = [],
      smallDisparity = []\<rparr>"

lemma stereoC7_runs:
  "computeDynamicProgramming (stereoC7\<lparr>params := (params stereoC7)\<lparr>lambdaJump := 4\<rparr>\<rparr>) =
     Some (stereoC7\<lparr>params := (params stereoC7)\<lparr>lambdaJump := 4\<rparr>,
        tableauLeft := [[[0, 50, 50], [50, 51, 4]]], tableauRight := [[[4, 51, 50], [50, 50, 0]]],
        tableauTop := [[[0, 50, 50], [50, 50, 0]]], tableauBottom := [[[0, 50, 50], [50, 50, 0]]]\<rparr>)"
  "computeDynamicProgramming (stereoC7\<lparr>params := (params stereoC7)\<lparr>lambdaJump := 9\<rparr>\<rparr>) =
     Some (stereoC7\<lparr>params := (params stereoC7)\<lparr>lambdaJump := 9\<rparr>,
        tableauLeft := [[[0, 50, 50], [50, 51, 9]]], tableauRight := [[[9, 51, 50], [50, 50, 0]]],
        tableauTop := [[[0, 50, 50], [50, 50, 0]]], tableauBottom := [[[0, 50, 50], [50, 50, 0]]]\<rparr>)"
  by code_simp+

theorem lambdaJump_monotone_witness:
  "(4::int) \<le> 9 \<and> (0::int) \<le> 4 \<and> 0 \<le> lambdaStep (params stereoC7) \<and>
   255 * max (dispWidth (params stereoC7)) (dispHeight (params stereoC7))
     + max (lambdaStep (params stereoC7)) 9 < 2 ^ 31 \<and>
   (0::nat) < nat (dispHeight (params stereoC7)) \<and> (1::nat) < nat (dispWidth (params stereoC7)) \<and>
   (2::nat) < nat (dispMax (params stereoC7)) \<and>
   (\<exists>s1 s2.
      computeDynamicProgramming (stereoC7\<lparr>params := (params stereoC7)\<lparr>lambdaJump := 4\<rparr>\<rparr>) = Some s1 \<and>
      computeDynamicProgramming (stereoC7\<lparr>params := (params stereoC7)\<lparr>lambdaJump := 9\<rparr>\<rparr>) = Some s2 \<and>
      tableauLeft s1 ! 0 ! 1 ! 2 = 4 \<and> tableauLeft s2 ! 0 ! 1 ! 2 = 9 \<and>
      tableauLeft s1 ! 0 ! 1 ! 2 \<le> tableauLeft s2 ! 0 ! 1 ! 2 \<and>
      tableauRight s1 ! 0 ! 1 ! 2 \<le> tableauRight s2 ! 0 ! 1 ! 2 \<and>
      tableauTop s1 ! 0 ! 1 ! 2 \<le> tableauTop s2 ! 0 ! 1 ! 2 \<and>
      tableauBottom s1 ! 0 ! 1 ! 2 \<le> tableauBottom s2 ! 0 ! 1 ! 2)"
proof -
  have j: "(4::int) \<le> 9" and j0: "(0::int) \<le> 4" by simp_all
  have s0: "0 \<le> lambdaStep (params stereoC7)"
    and fit: "255 * max (dispWidth (params stereoC7)) (dispHeight (params stereoC7))
              + max (lambdaStep (params stereoC7)) 9 < 2 ^ 31"
    by (simp_all add: stereoC7_def)
  have v: "(0::nat) < nat (dispHeight (params stereoC7))"
    and u: "(1::nat) < nat (dispWidth (params stereoC7))"
    and d: "(2::nat) < nat (dispMax (params stereoC7))" by (simp_all add: stereoC7_def)
  note m = lambdaJump_monotone[OF j j0 s0 fit stereoC7_runs(1) stereoC7_runs(2) v u d]
  have e: "tableauLeft (stereoC7\<lparr>params := (params stereoC7)\<lparr>lambdaJump := 4\<rparr>,
        tableauLeft := [[[0, 50, 50], [50, 51, 4]]], tableauRight := [[[4, 51, 50], [50, 50, 0]]],
        tableauTop := [[[0, 50, 50], [50, 50, 0]]], tableauBottom := [[[0, 50, 50], [50, 50, 0]]]\<rparr>) ! 0 ! 1 ! 2 = 4"
    "tableauLeft (stereoC7\<lparr>params := (params stereoC7)\<lparr>lambdaJump := 9\<rparr>,
        tableauLeft := [[[0, 50, 50], [50, 51, 9]]], tableauRight := [[[9, 51, 50], [50, 50, 0]]],
        tableauTop := [[[0, 50, 50], [50, 50, 0]]], tableauBottom := [[[0, 50, 50], [50, 50, 0]]]\<rparr>) ! 0 ! 1 ! 2 = 9"
    by simp_all
  from j j0 s0 fit v u d stereoC7_runs m e show ?thesis by blast
qed

text \<open>
  A line of two pixels where the jump penalty is the greatest \<^verbatim>\<open>int\<close>: the sum
  \<^verbatim>\<open>bestCost + params.lambdaJump\<close> of \<open>1\<close> and \<open>2147483647\<close> wraps to \<open>-2147483648\<close>, which
  wins every minimum, while the penalty 4 leaves the entry at 1.
\<close>

definition stereoJump :: EnhancedStereo where
  "stereoJump = \<lparr>params = \<lparr>dispWidth = 2, dispHeight = 1, dispMax = 3, lambdaStep = 1,
        lambdaJump = 0, scale = 3, maxBias = 10, maxDistance = 100\<rparr>,
      errorBuffer = [[[1, 1, 1], [0, 0, 0]]],
      tableauLeft = [], tableauRight = [], tableauTop = [], tableauBottom = [],
      smallDisparity = []\<rparr>"

lemma stereoJump_runs:
  "computeDynamicProgramming (stereoJump\<lparr>params := (params stereoJump)\<lparr>lambdaJump := 4\<rparr>\<rparr>) =
     Some (stereoJump\<lparr>params := (params stereoJump)\<lparr>lambdaJump := 4\<rparr>,
        tableauLeft := [[[1, 1, 1], [1, 1, 1]]], tableauRight := [[[1, 1, 1], [0, 0, 0]]],
        tableauTop := [[[1, 1, 1], [0, 0, 0]]], tableauBottom := [[[1, 1, 1], [0, 0, 0]]]\<rparr>)"
  "computeDynamicProgramming (stereoJump\<lparr>params := (params stereoJump)\<lparr>lambdaJump := 2147483647\<rparr>\<rparr>) =
     Some (stereoJump\<lparr>params := (params stereoJump)\<lparr>lambdaJump := 2147483647\<rparr>,
        tableauLeft := [[[1, 1, 1], [- 2147483648, - 2147483648, - 2147483648]]],
        tableauRight := [[[1, 1, 1], [0, 0, 0]]],
        tableauTop := [[[1, 1, 1], [0, 0, 0]]], tableauBottom := [[[1, 1, 1], [0, 0, 0]]]\<rparr>)"
  by code_simp+

theorem lambdaJump_wraps_counterexample:
  "(4::int) \<le> 2147483647 \<and>
   (\<exists>s1 s2.
      computeDynamicProgramming (stereoJump\<lparr>params := (params stereoJump)\<lparr>lambdaJump := 4\<rparr>\<rparr>) = Some s1 \<and>
      computeDynamicProgramming (stereoJump\<lparr>params := (params stereoJump)\<lparr>lambdaJump := 2147483647\<rparr>\<rparr>) = Some s2 \<and>
      tableauLeft s1 ! 0 ! 1 ! 0 = 1 \<and> tableauLeft s2 ! 0 ! 1 ! 0 = - 2147483648 \<and>
      tableauLeft s2 ! 0 ! 1 ! 0 < tableauLeft s1 ! 0 ! 1 ! 0)"
  by (simp add: stereoJump_runs)


section \<open>Fusion of the four tableaus\<close>

text \<open>
  \<^verbatim>\<open>reconstructDisparity\<close>.  The accumulator of the inner loop,
  \<^verbatim>\<open>int acc = dynRow1[base + d] + dynRow2[base + d] + dynRow3[base + d] + dynRow4[base + d] - 2*errRow[base + d]\<close>:
  three sums, a product and a difference of \<^verbatim>\<open>int\<close>, from left to right.
\<close>

definition fusedScore :: "EnhancedStereo \<Rightarrow> nat \<Rightarrow> nat \<Rightarrow> nat \<Rightarrow> int" where
  "fusedScore st v u d =
     sub32 (add32 (add32 (add32 (tableauLeft st ! v ! u ! d) (tableauRight st ! v ! u ! d))
                         (tableauTop st ! v ! u ! d))
                  (tableauBottom st ! v ! u ! d))
           (mul32 2 (uint (errorBuffer st ! v ! u ! d)))"

text \<open>
  The loop over \<open>d\<close> for one pixel, with its two variables: \<^verbatim>\<open>int bestCost = 100000\<close>
  and \<^verbatim>\<open>uint8_t & bestDisp = smallDisparity(v, u)\<close>, set to 0 before the loop.  The
  store \<^verbatim>\<open>bestDisp = d\<close> narrows the \<^verbatim>\<open>int\<close> counter to a byte.  (\<^verbatim>\<open>bestErr\<close> goes to
  a local matrix that is dropped at the end of the call.)
\<close>

definition selectStep :: "EnhancedStereo \<Rightarrow> nat \<Rightarrow> nat \<Rightarrow> nat \<Rightarrow> int \<times> u8 \<Rightarrow> int \<times> u8" where
  "selectStep st v u d best =
     (let acc = fusedScore st v u d
      in if fst best > acc then (acc, of_nat d) else best)"

definition selectDisparity :: "EnhancedStereo \<Rightarrow> nat \<Rightarrow> nat \<Rightarrow> int \<times> u8" where
  "selectDisparity st v u =
     fold (selectStep st v u) [0..<nat (dispMax (params st))] (100000, 0)"

definition planeShape :: "StereoParameters \<Rightarrow> 'a list list \<Rightarrow> bool" where
  "planeShape p m \<longleftrightarrow>
     length m = nat (dispHeight p) \<and> list_all (\<lambda>row. length row = nat (dispWidth p)) m"

text \<open>The sizes \<^verbatim>\<open>createBuffer\<close> establishes; the loops index inside them only then.\<close>

definition buffersShaped :: "EnhancedStereo \<Rightarrow> bool" where
  "buffersShaped st \<longleftrightarrow>
     volumeShape (params st) (errorBuffer st) \<and>
     volumeShape (params st) (tableauLeft st) \<and> volumeShape (params st) (tableauRight st) \<and>
     volumeShape (params st) (tableauTop st) \<and> volumeShape (params st) (tableauBottom st) \<and>
     planeShape (params st) (smallDisparity st)"

definition reconstructDisparity :: "EnhancedStereo \<Rightarrow> EnhancedStereo option" where
  "reconstructDisparity st =
     (if \<not> buffersShaped st then None
      else Some (st\<lparr>smallDisparity :=
             map (\<lambda>v. map (\<lambda>u. snd (selectDisparity st v u)) [0..<nat (dispWidth (params st))])
                 [0..<nat (dispHeight (params st))]\<rparr>))"

text \<open>
  The fused score of the specification, \<open>T_left + T_right + T_top + T_bottom - 2 rawCost\<close>
  over the integers, and the condition under which the accumulator holds it: no partial
  sum leaves the 32 bits.
\<close>

definition fusedSum :: "EnhancedStereo \<Rightarrow> nat \<Rightarrow> nat \<Rightarrow> nat \<Rightarrow> int" where
  "fusedSum st v u d =
     tableauLeft st ! v ! u ! d + tableauRight st ! v ! u ! d +
     tableauTop st ! v ! u ! d + tableauBottom st ! v ! u ! d -
     2 * uint (errorBuffer st ! v ! u ! d)"

definition fusedFits :: "EnhancedStereo \<Rightarrow> nat \<Rightarrow> nat \<Rightarrow> nat \<Rightarrow> bool" where
  "fusedFits st v u d \<longleftrightarrow>
     fits32 (tableauLeft st ! v ! u ! d + tableauRight st ! v ! u ! d) \<and>
     fits32 (tableauLeft st ! v ! u ! d + tableauRight st ! v ! u ! d + tableauTop st ! v ! u ! d) \<and>
     fits32 (tableauLeft st ! v ! u ! d + tableauRight st ! v ! u ! d + tableauTop st ! v ! u ! d
             + tableauBottom st ! v ! u ! d) \<and>
     fits32 (fusedSum st v u d)"

lemma fusedScore_exact:
  assumes "fusedFits st v u d"
  shows "fusedScore st v u d = fusedSum st v u d"
proof -
  define a where "a = tableauLeft st ! v ! u ! d"
  define b where "b = tableauRight st ! v ! u ! d"
  define c where "c = tableauTop st ! v ! u ! d"
  define e where "e = tableauBottom st ! v ! u ! d"
  define r where "r = uint (errorBuffer st ! v ! u ! d)"
  from assms have f: "fits32 (a + b)" "fits32 (a + b + c)" "fits32 (a + b + c + e)"
    "fits32 (a + b + c + e - 2 * r)"
    by (simp_all add: fusedFits_def fusedSum_def a_def b_def c_def e_def r_def)
  have "0 \<le> r" "r \<le> 255" using uint_u8_range[of "errorBuffer st ! v ! u ! d"] by (simp_all add: r_def)
  then have "fits32 (2 * r)" by (simp add: fits32_def)
  then have m: "mul32 2 r = 2 * r" by (rule mul32_fits)
  have "sub32 (add32 (add32 (add32 a b) c) e) (mul32 2 r) = a + b + c + e - 2 * r"
    unfolding m add32_fits[OF f(1)] add32_fits[OF f(2)] add32_fits[OF f(3)] by (rule sub32_fits[OF f(4)])
  then show ?thesis by (simp add: fusedScore_def fusedSum_def a_def b_def c_def e_def r_def)
qed

text \<open>The loop invariant after the candidates \<open>0..<n\<close>.\<close>

definition selectInv :: "(nat \<Rightarrow> int) \<Rightarrow> nat \<Rightarrow> int \<times> u8 \<Rightarrow> bool" where
  "selectInv f n best \<longleftrightarrow>
     ((\<forall>d<n. 100000 \<le> f d) \<and> best = (100000, 0)) \<or>
     (\<exists>k<n. best = (f k, of_nat k) \<and> f k < 100000 \<and> (\<forall>d<n. f k \<le> f d) \<and> (\<forall>d<k. f k < f d))"

lemma selectDisparity_inv:
  "selectInv (fusedScore st v u) n (fold (selectStep st v u) [0..<n] (100000, 0))"
proof (induction n)
  case 0
  then show ?case by (simp add: selectInv_def)
next
  case (Suc n)
  define f where "f = fusedScore st v u"
  define best where "best = fold (selectStep st v u) [0..<n] (100000, 0)"
  have step: "fold (selectStep st v u) [0..<Suc n] (100000, 0) = selectStep st v u n best"
    by (simp add: best_def)
  from Suc have inv: "selectInv f n best" by (simp add: f_def best_def)
  have "selectInv f (Suc n) (selectStep st v u n best)"
  proof (cases "fst best > f n")
    case True
    then have s: "selectStep st v u n best = (f n, of_nat n)"
      by (simp add: selectStep_def f_def Let_def)
    from inv True have lt: "f n < 100000" and all: "\<forall>d<n. f n < f d"
      by (auto simp: selectInv_def)
    then have "\<forall>d<Suc n. f n \<le> f d" by (auto simp: less_Suc_eq)
    with lt all show ?thesis unfolding s selectInv_def by blast
  next
    case False
    then have s: "selectStep st v u n best = best"
      by (simp add: selectStep_def f_def Let_def)
    from inv False show ?thesis unfolding s selectInv_def
      by (elim disjE exE conjE) (auto simp: less_Suc_eq)
  qed
  then show ?case by (simp only: step f_def)
qed

text \<open>
  Claim C1, as the code has it.  When \<open>dispMax \<le> 256\<close>, no partial sum of the fused score
  \<open>T_left[d] + T_right[d] + T_top[d] + T_bottom[d] - 2*rawCost[d]\<close> of the pixel leaves the
  32 bits of an \<^verbatim>\<open>int\<close>, and the pixel has a disparity whose fused score is below the
  initial \<^verbatim>\<open>bestCost\<close> of 100000, the disparity \<^verbatim>\<open>reconstructDisparity\<close> stores for the
  pixel has a fused score no greater than that of any other disparity, and it is the
  smallest index attaining the minimum.
\<close>

theorem reconstructDisparity_argmin:
  assumes shaped: "buffersShaped st"
    and v: "v < nat (dispHeight (params st))" and u: "u < nat (dispWidth (params st))"
    and D: "dispMax (params st) \<le> 256"
    and fits: "\<forall>d<nat (dispMax (params st)). fusedFits st v u d"
    and some: "\<exists>d<nat (dispMax (params st)). fusedSum st v u d < 100000"
  shows "\<exists>st' k. reconstructDisparity st = Some st' \<and> k = unat (smallDisparity st' ! v ! u) \<and>
           k < nat (dispMax (params st)) \<and>
           (\<forall>d<nat (dispMax (params st)). fusedSum st v u k \<le> fusedSum st v u d) \<and>
           (\<forall>d<k. fusedSum st v u k < fusedSum st v u d)"
proof -
  define n where "n = nat (dispMax (params st))"
  define f where "f = fusedScore st v u"
  have ex: "f d = fusedSum st v u d" if "d < n" for d
    using fits that fusedScore_exact[of st v u d] by (simp add: n_def f_def)
  have inv: "selectInv f n (selectDisparity st v u)"
    using selectDisparity_inv[of st v u n] by (simp add: selectDisparity_def n_def f_def)
  from some have "\<not> (\<forall>d<n. 100000 \<le> f d)" using ex by (auto simp: n_def not_le)
  with inv obtain k where k: "k < n" "selectDisparity st v u = (f k, of_nat k)"
    "\<forall>d<n. f k \<le> f d" "\<forall>d<k. f k < f d"
    by (auto simp: selectInv_def)
  have "n \<le> 256" using D by (simp add: n_def)
  with k(1) have k256: "k < 256" by simp
  have un: "unat (of_nat k :: u8) = k" using k256 by (simp add: unat_of_nat)
  define st' where "st' = st\<lparr>smallDisparity :=
             map (\<lambda>v. map (\<lambda>u. snd (selectDisparity st v u)) [0..<nat (dispWidth (params st))])
                 [0..<nat (dispHeight (params st))]\<rparr>"
  have run: "reconstructDisparity st = Some st'"
    using shaped by (simp add: reconstructDisparity_def st'_def)
  have "smallDisparity st' ! v ! u = snd (selectDisparity st v u)"
    using v u by (simp add: st'_def)
  then have kk: "unat (smallDisparity st' ! v ! u) = k" using k(2) un by simp
  have "\<forall>d<n. fusedSum st v u k \<le> fusedSum st v u d" using k(1,3) ex by auto
  moreover have "\<forall>d<k. fusedSum st v u k < fusedSum st v u d" using k(1,4) ex by auto
  ultimately show ?thesis using run kk k(1) unfolding n_def by blast
qed

text \<open>
  The comparison \<^verbatim>\<open>bestCost > acc\<close> starts from 100000: a pixel all of whose fused scores
  reach that value keeps disparity 0, whatever their order.
\<close>

lemma selectDisparity_sentinel:
  assumes "\<forall>d<nat (dispMax (params st)). 100000 \<le> fusedScore st v u d"
  shows "selectDisparity st v u = (100000, 0)"
proof -
  have "selectInv (fusedScore st v u) (nat (dispMax (params st))) (selectDisparity st v u)"
    using selectDisparity_inv[of st v u "nat (dispMax (params st))"] by (simp add: selectDisparity_def)
  with assms show ?thesis by (auto simp: selectInv_def)
qed

text \<open>
  With 257 disparities on a single pixel the four tableaus equal the raw cost, the least
  fused score is at \<open>d = 256\<close>, and the byte stored for it is 0, whose score is greater.
\<close>

definition stereoD257 :: EnhancedStereo where
  "stereoD257 = \<lparr>params = \<lparr>dispWidth = 1, dispHeight = 1, dispMax = 257, lambdaStep = 1,
        lambdaJump = 4, scale = 3, maxBias = 10, maxDistance = 100\<rparr>,
      errorBuffer = [[replicate 256 1 @ [0]]],
      tableauLeft = [[replicate 257 0]], tableauRight = [[replicate 257 0]],
      tableauTop = [[replicate 257 0]], tableauBottom = [[replicate 257 0]],
      smallDisparity = [[0]]\<rparr>"

lemma stereoD257_dp:
  "computeDynamicProgramming stereoD257 =
     Some (stereoD257\<lparr>tableauLeft := [[replicate 256 1 @ [0]]], tableauRight := [[replicate 256 1 @ [0]]],
                      tableauTop := [[replicate 256 1 @ [0]]], tableauBottom := [[replicate 256 1 @ [0]]]\<rparr>)"
  by code_simp


definition tableausD257 :: EnhancedStereo where
  "tableausD257 = stereoD257\<lparr>tableauLeft := [[replicate 256 1 @ [0]]], tableauRight := [[replicate 256 1 @ [0]]],
                      tableauTop := [[replicate 256 1 @ [0]]], tableauBottom := [[replicate 256 1 @ [0]]]\<rparr>"

lemma fusedSum_D257:
  "d < 257 \<Longrightarrow> fusedSum tableausD257 0 0 d = (if d = 256 then 0 else 2)"
  by (simp add: fusedSum_def tableausD257_def stereoD257_def nth_append)

lemma fusedFits_D257: "d < 257 \<Longrightarrow> fusedFits tableausD257 0 0 d"
  using fusedSum_D257[of d]
  by (simp add: fusedFits_def fits32_def tableausD257_def stereoD257_def nth_append)

lemma fusedScore_D257:
  "d < 257 \<Longrightarrow> fusedScore tableausD257 0 0 d = (if d = 256 then 0 else 2)"
  using fusedScore_exact[OF fusedFits_D257, of d] fusedSum_D257[of d] by simp

lemma selectDisparity_D257: "snd (selectDisparity tableausD257 0 0) = 0"
proof -
  have n: "nat (dispMax (params tableausD257)) = 257"
    by (simp add: tableausD257_def stereoD257_def)
  have "selectInv (fusedScore tableausD257 0 0) 257 (selectDisparity tableausD257 0 0)"
    using selectDisparity_inv[of tableausD257 0 0 257] by (simp add: selectDisparity_def n)
  moreover have "\<not> (\<forall>d<257. 100000 \<le> fusedScore tableausD257 0 0 d)"
    using fusedScore_D257[of 0] by (intro notI) force
  ultimately obtain k where k: "k < 257" "selectDisparity tableausD257 0 0 = (fusedScore tableausD257 0 0 k, of_nat k)"
    "\<forall>d<257. fusedScore tableausD257 0 0 k \<le> fusedScore tableausD257 0 0 d"
    by (auto simp: selectInv_def)
  from k(3) have "fusedScore tableausD257 0 0 k \<le> fusedScore tableausD257 0 0 256" by simp
  with k(1) have "k = 256" by (simp add: fusedScore_D257 split: if_splits)
  with k(2) show ?thesis by simp
qed

lemma tableausD257_shaped: "buffersShaped tableausD257"
  by (simp add: buffersShaped_def volumeShape_def planeShape_def tableausD257_def stereoD257_def)

theorem reconstructDisparity_argmin_counterexample:
  "computeDynamicProgramming stereoD257 = Some tableausD257 \<and>
   reconstructDisparity tableausD257 = Some (tableausD257\<lparr>smallDisparity := [[0]]\<rparr>) \<and>
   fusedFits tableausD257 0 0 0 \<and> fusedFits tableausD257 0 0 256 \<and>
   fusedSum tableausD257 0 0 0 = 2 \<and> fusedSum tableausD257 0 0 256 = 0"
proof (intro conjI)
  show "computeDynamicProgramming stereoD257 = Some tableausD257"
    unfolding tableausD257_def by (rule stereoD257_dp)
  have "nat (dispWidth (params tableausD257)) = 1" "nat (dispHeight (params tableausD257)) = 1"
    by (simp_all add: tableausD257_def stereoD257_def)
  then show "reconstructDisparity tableausD257 = Some (tableausD257\<lparr>smallDisparity := [[0]]\<rparr>)"
    using tableausD257_shaped selectDisparity_D257 by (simp add: reconstructDisparity_def)
  show "fusedFits tableausD257 0 0 0" by (rule fusedFits_D257) simp
  show "fusedFits tableausD257 0 0 256" by (rule fusedFits_D257) simp
  show "fusedSum tableausD257 0 0 0 = 2" using fusedSum_D257[of 0] by simp
  show "fusedSum tableausD257 0 0 256 = 0" using fusedSum_D257[of 256] by simp
qed

text \<open>The tableaus of the 3 by 2 example above; pixel \<open>(v, u) = (0, 1)\<close> selects disparity 1.\<close>

definition tableausC2 :: EnhancedStereo where
  "tableausC2 = stereoC2\<lparr>
     tableauLeft := [[[1, 2, 3], [10, 2, 10], [6, 5, 6]], [[5, 5, 5], [5, 205, 260], [6, 6, 10]]],
     tableauRight := [[[5, 5, 7], [12, 3, 10], [3, 3, 3]], [[6, 7, 10], [1, 200, 256], [1, 0, 1]]],
     tableauTop := [[[1, 2, 3], [9, 0, 7], [3, 3, 3]], [[6, 7, 8], [1, 200, 256], [4, 3, 4]]],
     tableauBottom := [[[6, 7, 8], [9, 1, 11], [4, 3, 4]], [[5, 5, 5], [0, 200, 255], [1, 0, 1]]],
     smallDisparity := [[0, 0, 0], [0, 0, 0]]\<rparr>"


lemma tableausC2_run:
  "reconstructDisparity tableausC2 = Some (tableausC2\<lparr>smallDisparity := [[0, 1, 1], [0, 0, 1]]\<rparr>)"
  by code_simp

lemma tableausC2_scores: "map (fusedSum tableausC2 0 1) [0, 1, 2] = [22, 6, 24]"
  by code_simp

lemma tableausC2_fits:
  "fusedFits tableausC2 0 1 0" "fusedFits tableausC2 0 1 1" "fusedFits tableausC2 0 1 2"
  by code_simp+

theorem reconstructDisparity_argmin_witness:
  "buffersShaped tableausC2 \<and>
   (0::nat) < nat (dispHeight (params tableausC2)) \<and> (1::nat) < nat (dispWidth (params tableausC2)) \<and>
   dispMax (params tableausC2) \<le> 256 \<and>
   fusedFits tableausC2 0 1 0 \<and> fusedFits tableausC2 0 1 1 \<and> fusedFits tableausC2 0 1 2 \<and>
   (\<exists>d<nat (dispMax (params tableausC2)). fusedSum tableausC2 0 1 d < 100000) \<and>
   (\<exists>st' k. reconstructDisparity tableausC2 = Some st' \<and> k = unat (smallDisparity st' ! 0 ! 1) \<and>
      k = 1 \<and> k < nat (dispMax (params tableausC2)) \<and>
      (\<forall>d<nat (dispMax (params tableausC2)). fusedSum tableausC2 0 1 k \<le> fusedSum tableausC2 0 1 d) \<and>
      (\<forall>d<k. fusedSum tableausC2 0 1 k < fusedSum tableausC2 0 1 d))"
proof -
  have h1: "buffersShaped tableausC2"
    by (simp add: buffersShaped_def volumeShape_def planeShape_def tableausC2_def stereoC2_def paramsC2_def)
  have h2: "(0::nat) < nat (dispHeight (params tableausC2))"
    and h3: "(1::nat) < nat (dispWidth (params tableausC2))"
    and h4: "dispMax (params tableausC2) \<le> 256"
    by (simp_all add: tableausC2_def stereoC2_def paramsC2_def)
  have n3: "nat (dispMax (params tableausC2)) = 3"
    by (simp add: tableausC2_def stereoC2_def paramsC2_def)
  have "d = 0 \<or> d = 1 \<or> d = 2" if "d < 3" for d :: nat using that by arith
  then have hf: "\<forall>d<nat (dispMax (params tableausC2)). fusedFits tableausC2 0 1 d"
    unfolding n3 using tableausC2_fits by blast
  have "(1::nat) < nat (dispMax (params tableausC2))" by (simp add: n3)
  moreover have "fusedSum tableausC2 0 1 1 < 100000" using tableausC2_scores by simp
  ultimately have h5: "\<exists>d<nat (dispMax (params tableausC2)). fusedSum tableausC2 0 1 d < 100000"
    by blast
  from reconstructDisparity_argmin[OF h1 h2 h3 h4 hf h5] obtain st' k where
    r: "reconstructDisparity tableausC2 = Some st'" "k = unat (smallDisparity st' ! 0 ! 1)"
      "k < nat (dispMax (params tableausC2))"
      "\<forall>d<nat (dispMax (params tableausC2)). fusedSum tableausC2 0 1 k \<le> fusedSum tableausC2 0 1 d"
      "\<forall>d<k. fusedSum tableausC2 0 1 k < fusedSum tableausC2 0 1 d"
    by blast
  from r(1) have "st' = tableausC2\<lparr>smallDisparity := [[0, 1, 1], [0, 0, 1]]\<rparr>"
    by (simp add: tableausC2_run)
  with r(2) have "k = 1" by simp
  with h1 h2 h3 h4 h5 tableausC2_fits r show ?thesis by blast
qed


section \<open>Epipolar curve table\<close>

text \<open>
  \<^verbatim>\<open>EnhancedEpipolar\<close> with Eigen's vectors as tuples of reals.  C++ division of
  \<^verbatim>\<open>int\<close> truncates towards zero (\<open>sdiv\<close>), and \<^verbatim>\<open>round\<close> rounds halves away from zero.
\<close>

type_synonym Vector2d = "real \<times> real"
type_synonym Vector3d = "real \<times> real \<times> real"
type_synonym Vector2i = "int \<times> int"
type_synonym Matrix3d = "Vector3d \<times> Vector3d \<times> Vector3d"

definition dot :: "Vector3d \<Rightarrow> Vector3d \<Rightarrow> real" where
  "dot a b = (case (a, b) of ((a0, a1, a2), (b0, b1, b2)) \<Rightarrow> a0 * b0 + a1 * b1 + a2 * b2)"

definition cross :: "Vector3d \<Rightarrow> Vector3d \<Rightarrow> Vector3d" where
  "cross a b = (case (a, b) of ((a0, a1, a2), (b0, b1, b2)) \<Rightarrow>
     (a1 * b2 - a2 * b1, a2 * b0 - a0 * b2, a0 * b1 - a1 * b0))"

definition scaleV :: "real \<Rightarrow> Vector3d \<Rightarrow> Vector3d" where
  "scaleV c a = (case a of (a0, a1, a2) \<Rightarrow> (c * a0, c * a1, c * a2))"

definition addV :: "Vector3d \<Rightarrow> Vector3d \<Rightarrow> Vector3d" where
  "addV a b = (case (a, b) of ((a0, a1, a2), (b0, b1, b2)) \<Rightarrow> (a0 + b0, a1 + b1, a2 + b2))"

definition normV :: "Vector3d \<Rightarrow> real" where
  "normV a = sqrt (dot a a)"

text \<open>
  Eigen's \<^verbatim>\<open>normalized()\<close> and \<^verbatim>\<open>normalize()\<close> divide by the norm when it is positive and
  leave a vector of norm zero as it is.
\<close>

definition normalizedV :: "Vector3d \<Rightarrow> Vector3d" where
  "normalizedV a = (if 0 < dot a a then scaleV (1 / normV a) a else a)"

text \<open>A matrix is the triple of its rows.\<close>

definition mulMV :: "Matrix3d \<Rightarrow> Vector3d \<Rightarrow> Vector3d" where
  "mulMV M a = (case M of (r0, r1, r2) \<Rightarrow> (dot r0 a, dot r1 a, dot r2 a))"

definition cround :: "real \<Rightarrow> int" where
  "cround r = (if 0 \<le> r then \<lfloor>r + 1 / 2\<rfloor> else - \<lfloor>- r + 1 / 2\<rfloor>)"

record Polynomial2 =
  kuu :: real
  kuv :: real
  kvv :: real
  ku :: real
  kv :: real
  k1 :: real

text \<open>The six parameters \<^verbatim>\<open>cam2.params[0..5]\<close> of the enhanced camera model.\<close>

record Intrinsics =
  alpha :: real
  beta :: real
  fu :: real
  fv :: real
  u0 :: real
  v0 :: real

record EnhancedEpipolar =
  nSteps :: int
  step :: real
  epipole :: Vector2d
  xBase :: Vector3d
  yBase :: Vector3d
  zBase :: Vector3d
  epipolarVec :: "Polynomial2 option list"

text \<open>
  The body of the constructor's loop for one direction \<open>X\<close> (already rotated into the
  second camera's frame).  The test \<^verbatim>\<open>CCfufv/(AA + BB) < 0.5\<close> is a comparison of doubles:
  with \<open>AA + BB = 0\<close> the quotient is an infinity of the sign of \<open>CCfufv\<close>, or NaN when
  \<open>CCfufv = 0\<close>, and the test holds only for the negative infinity.

  A quotient of doubles whose divisor is zero is an infinity or NaN, not a real number.  A
  curve with such a coefficient is \<open>None\<close>; the curves of the table are
  \<open>Polynomial2 option\<close>.
\<close>

definition passesThroughCentre :: "Intrinsics \<Rightarrow> Vector3d \<Rightarrow> bool" where
  "passesThroughCentre cam2 plane =
    (case plane of (A, B, C) \<Rightarrow>
     let fufv = fu cam2 * fv cam2;
         AA = A * A; BB = B * B; CC = C * C;
         CCfufv = CC * fufv
     in if AA + BB = 0 then CCfufv < 0 else CCfufv / (AA + BB) < 0.5)"

text \<open>The first branch: a straight line through the projection centre.\<close>

definition lineCurve :: "Intrinsics \<Rightarrow> Vector3d \<Rightarrow> Polynomial2 option" where
  "lineCurve cam2 plane =
    (case plane of (A, B, C) \<Rightarrow>
       if fu cam2 = 0 \<or> fv cam2 = 0 then None
       else Some \<lparr>kuu = 0, kuv = 0, kvv = 0, ku = A / fu cam2, kv = B / fv cam2,
                  k1 = - u0 cam2 * A / fu cam2 - v0 cam2 * B / fv cam2\<rparr>)"

text \<open>
  The second branch: five coefficients in closed form, the last from the epipole.  The
  divisors are \<^verbatim>\<open>CC*fufu\<close>, \<^verbatim>\<open>CCfufv\<close>, \<^verbatim>\<open>CC*fvfv\<close>, \<^verbatim>\<open>CCfufv*fu\<close> and \<^verbatim>\<open>CCfufv*fv\<close>.
\<close>

definition conicCurve :: "Intrinsics \<Rightarrow> Vector2d \<Rightarrow> Vector3d \<Rightarrow> Polynomial2 option" where
  "conicCurve cam2 epi plane =
    (case plane of (A, B, C) \<Rightarrow>
     let gamma = 1 - alpha cam2;
         ag = alpha cam2 - gamma;
         a2b = alpha cam2 * alpha cam2 * beta cam2;
         fufv = fu cam2 * fv cam2;
         fufu = fu cam2 * fu cam2;
         fvfv = fv cam2 * fv cam2;
         AA = A * A; BB = B * B; CC = C * C;
         CCfufv = CC * fufv;
         kuu' = (AA * ag + CC * a2b) / (CC * fufu);
         kuv' = 2 * A * B * ag / CCfufv;
         kvv' = (BB * ag + CC * a2b) / (CC * fvfv);
         ku' = 2 * (- (AA * fv cam2 * u0 cam2 + A * B * fu cam2 * v0 cam2) * ag
                    - A * C * fufv * gamma - CC * a2b * fv cam2 * u0 cam2) / (CCfufv * fu cam2);
         kv' = 2 * (- (BB * fu cam2 * v0 cam2 + A * B * fv cam2 * u0 cam2) * ag
                    - B * C * fufv * gamma - CC * a2b * fu cam2 * v0 cam2) / (CCfufv * fv cam2)
     in if CC * fufu = 0 \<or> CCfufv = 0 \<or> CC * fvfv = 0 \<or> CCfufv * fu cam2 = 0 \<or> CCfufv * fv cam2 = 0
        then None
        else Some \<lparr>kuu = kuu', kuv = kuv', kvv = kvv', ku = ku', kv = kv',
          k1 = - (kuu' * fst epi * fst epi + kuv' * fst epi * snd epi
                  + kvv' * snd epi * snd epi + ku' * fst epi + kv' * snd epi)\<rparr>)"

definition curveOfPlane :: "Intrinsics \<Rightarrow> Vector2d \<Rightarrow> Vector3d \<Rightarrow> Polynomial2 option" where
  "curveOfPlane cam2 epi plane =
    (if passesThroughCentre cam2 plane then lineCurve cam2 plane else conicCurve cam2 epi plane)"

text \<open>The direction of bin \<open>idx\<close>: the tangent half, then the cotangent half.\<close>

definition binDirection :: "int \<Rightarrow> real \<Rightarrow> Vector3d \<Rightarrow> Vector3d \<Rightarrow> int \<Rightarrow> Vector3d" where
  "binDirection numberSteps stp xB yB idx =
     (if idx < numberSteps sdiv 2
      then (let s = stp * real_of_int idx - 1 in addV xB (scaleV s yB))
      else (let c = stp * real_of_int (- idx + numberSteps sdiv 2) + 1 in addV (scaleV c xB) yB))"

text \<open>
  The constructor.  Its arguments are what it takes from the classes outside the
  sources: the translation \<^verbatim>\<open>T12.trans()\<close>, the rotation \<^verbatim>\<open>Transform12.rotMatInv()\<close>,
  the parameters of the second camera and its \<^verbatim>\<open>projectPoint\<close>.  A failed
  \<^verbatim>\<open>assert(nSteps % 2 == 0)\<close> and \<^verbatim>\<open>epipolarVec.front()\<close> of an empty table (no bin was
  built) have no result.
\<close>

definition EnhancedEpipolar_new ::
    "Vector3d \<Rightarrow> Matrix3d \<Rightarrow> Intrinsics \<Rightarrow> (Vector3d \<Rightarrow> Vector2d) \<Rightarrow> int \<Rightarrow> EnhancedEpipolar option" where
  "EnhancedEpipolar_new translation R21 cam2 projectPoint numberSteps =
    (if numberSteps mod 2 \<noteq> 0 then None
     else
       let stp = 4 / real_of_int numberSteps;
           zB = scaleV (- 1) (normalizedV translation);
           x0 = (case zB of (z0, z1, z2) \<Rightarrow>
                   if z2 * z2 > z0 * z0 + z1 * z1 then (1, 0, 0) else (0, 0, 1));
           x1 = addV x0 (scaleV (- dot zB x0) zB);
           xB = normalizedV x1;
           yB = cross zB xB;
           t21n = mulMV R21 zB;
           epi = projectPoint t21n;
           curves = map (\<lambda>idx. curveOfPlane cam2 epi
                           (cross (mulMV R21 (binDirection numberSteps stp xB yB idx)) t21n))
                        [0..numberSteps - 1]
       in case curves of
            [] \<Rightarrow> None
          | front # rest \<Rightarrow>
              Some \<lparr>nSteps = numberSteps, step = stp, epipole = epi,
                    xBase = xB, yBase = yB, zBase = zB,
                    epipolarVec = curves @ [front]\<rparr>)"

definition index :: "EnhancedEpipolar \<Rightarrow> Vector3d \<Rightarrow> int" where
  "index E X =
    (let c = dot X (xBase E); ac = \<bar>c\<bar>;
         s = dot X (yBase E); as = \<bar>s\<bar>
     in if ac + as < 1 / 10000 then 0
        else if ac > as then cround ((s / c + 1) / step E)
        else cround ((1 - c / s) / step E) + nSteps E sdiv 2)"

text \<open>
  \<^verbatim>\<open>epipolarVec[idx]\<close>; an index outside the table has no defined result.  Inside the
  table the result is the entry, a curve or \<open>None\<close> for one with NaN coefficients.
\<close>

definition getCurve :: "EnhancedEpipolar \<Rightarrow> int \<Rightarrow> Polynomial2 option option" where
  "getCurve E idx =
     (if 0 \<le> idx \<and> idx < int (length (epipolarVec E)) then Some (epipolarVec E ! nat idx) else None)"

definition getCurveOfRay :: "EnhancedEpipolar \<Rightarrow> Vector3d \<Rightarrow> Polynomial2 option option" where
  "getCurveOfRay E X = getCurve E (index E X)"

section \<open>Curve rasterizer\<close>

text \<open>
  Modelled from the spec: the class \<^verbatim>\<open>CurveRasterizer\<close>
  (\<^verbatim>\<open>reconstruction/curve_rasterizer.h\<close>) is not among the sources; only its uses in
  \<^verbatim>\<open>eucm_stereo.cpp\<close> are (\<^verbatim>\<open>raster.x\<close>, \<^verbatim>\<open>raster.y\<close>, \<^verbatim>\<open>step()\<close>, \<^verbatim>\<open>steps(n)\<close> and the
  constructor from two anchor pixels and a curve).  The state is the current pixel, the
  target anchor and the curve.  \<open>step\<close> moves to the neighbour, among the eight that lie
  towards the target, whose curve value is closest to zero; a rewinding step does the
  same among the neighbours that lie away from the target.
\<close>

record CurveRasterizer =
  raster_x :: int
  raster_y :: int
  target_x :: int
  target_y :: int
  surf :: Polynomial2

definition CurveRasterizer_new :: "Vector2i \<Rightarrow> Vector2i \<Rightarrow> Polynomial2 \<Rightarrow> CurveRasterizer" where
  "CurveRasterizer_new start goal curve =
     \<lparr>raster_x = fst start, raster_y = snd start, target_x = fst goal, target_y = snd goal,
      surf = curve\<rparr>"

text \<open>The implicit curve \<open>kuu u\<^sup>2 + kuv uv + kvv v\<^sup>2 + ku u + kv v + k1\<close> at a pixel.\<close>

definition curveValue :: "Polynomial2 \<Rightarrow> real \<Rightarrow> real \<Rightarrow> real" where
  "curveValue c u v =
     kuu c * u * u + kuv c * u * v + kvv c * v * v + ku c * u + kv c * v + k1 c"

definition neighbours :: "(int \<times> int) list" where
  "neighbours = [(1, 0), (0, 1), (-1, 0), (0, -1), (1, 1), (-1, 1), (-1, -1), (1, -1)]"

definition advance :: "int \<Rightarrow> CurveRasterizer \<Rightarrow> CurveRasterizer" where
  "advance way r =
     (let towards = (\<lambda>(dx, dy).
            0 < way * (dx * (target_x r - raster_x r) + dy * (target_y r - raster_y r)));
          off = (\<lambda>(dx, dy).
            \<bar>curveValue (surf r) (real_of_int (raster_x r + dx)) (real_of_int (raster_y r + dy))\<bar>)
      in case filter towards neighbours of
           [] \<Rightarrow> r
         | c # cs \<Rightarrow>
            (case fold (\<lambda>n b. if off n < off b then n else b) cs c of
               (dx, dy) \<Rightarrow> r\<lparr>raster_x := raster_x r + dx, raster_y := raster_y r + dy\<rparr>))"

definition rasterStep :: "CurveRasterizer \<Rightarrow> CurveRasterizer" where
  "rasterStep r = advance 1 r"

definition rasterStepBack :: "CurveRasterizer \<Rightarrow> CurveRasterizer" where
  "rasterStepBack r = advance (- 1) r"

text \<open>\<open>steps(n)\<close>: one call that advances \<open>n\<close> pixels, or rewinds \<open>-n\<close> for a negative \<open>n\<close>.\<close>

function rasterSteps :: "int \<Rightarrow> CurveRasterizer \<Rightarrow> CurveRasterizer" where
  "rasterSteps n r =
     (if 0 < n then rasterSteps (n - 1) (rasterStep r)
      else if n < 0 then rasterSteps (n + 1) (rasterStepBack r)
      else r)"
  by pat_completeness auto
termination
  by (relation "measure (\<lambda>(n, r). nat \<bar>n\<bar>)") auto

declare rasterSteps.simps [simp del]

section \<open>Per-pixel geometry of the matcher\<close>

text \<open>
  The members of \<^verbatim>\<open>EnhancedStereo\<close> that hold the geometry: the image-1 point of every
  working-grid pixel, its reconstructed ray, the epipolar direction (a \<^verbatim>\<open>Vector2d\<close> with
  a NaN component, for which \<^verbatim>\<open>dir != dir\<close> holds, is \<open>None\<close>), the pixel at infinite depth,
  the epipole pixel, the curve table, the pose \<^verbatim>\<open>Transform12\<close> and the two cameras'
  \<^verbatim>\<open>reconstructPoint\<close> (\<open>None\<close> when it returns false).
\<close>

record StereoGeometry =
  pointVec1 :: "Vector2d list"
  reconstVec :: "Vector3d list"
  epipolarDirectionVec :: "Vector2d option list"
  pinfPxVec :: "Vector2i list"
  epipolePx :: Vector2i
  epipolar :: EnhancedEpipolar
  rotMat :: Matrix3d
  transl :: Vector3d
  reconstructPoint1 :: "Vector2d \<Rightarrow> Vector3d option"
  reconstructPoint2 :: "Vector2d \<Rightarrow> Vector3d option"

text \<open>
  \<^verbatim>\<open>getLinearIndex(u, v)\<close>: \<^verbatim>\<open>computeReconstructed\<close> fills \<^verbatim>\<open>pointVec1\<close> row by row
  (\<^verbatim>\<open>for v ... for u ... emplace_back\<close>), so pixel \<open>(u, v)\<close> is entry \<open>v * dispWidth + u\<close>.
\<close>

definition getLinearIndex :: "StereoParameters \<Rightarrow> int \<Rightarrow> int \<Rightarrow> int" where
  "getLinearIndex p u v = v * dispWidth p + u"

definition nthOpt :: "'a list \<Rightarrow> int \<Rightarrow> 'a option" where
  "nthOpt xs i = (if 0 \<le> i \<and> i < int (length xs) then Some (xs ! nat i) else None)"

definition getCurveRasteriser :: "StereoGeometry \<Rightarrow> int \<Rightarrow> CurveRasterizer option" where
  "getCurveRasteriser G idx =
     (case nthOpt (pinfPxVec G) idx of
        None \<Rightarrow> None
      | Some pinfPx \<Rightarrow>
         (case nthOpt (reconstVec G) idx of
            None \<Rightarrow> None
          | Some X \<Rightarrow>
             (case getCurveOfRay (epipolar G) X of
                None \<Rightarrow> None
              | Some None \<Rightarrow> None
              | Some (Some curve) \<Rightarrow> Some (CurveRasterizer_new pinfPx (epipolePx G) curve))))"

section \<open>Curve-patch cost kernel\<close>

text \<open>
  An 8-bit image: \<^verbatim>\<open>img.rows\<close>, \<^verbatim>\<open>img.cols\<close> and the pixel \<^verbatim>\<open>img(y, x)\<close>.
\<close>

record Mat8u =
  rows :: int
  cols :: int
  pixel :: "int \<Rightarrow> int \<Rightarrow> u8"

text \<open>
  \<^verbatim>\<open>HALF_LENGTH\<close> and \<^verbatim>\<open>LENGTH\<close> of the source; the second is \<open>LENGTH_patch\<close> here, the
  name \<open>LENGTH\<close> being taken by the word library.
\<close>

definition HALF_LENGTH :: "StereoParameters \<Rightarrow> int" where
  "HALF_LENGTH p = max (scale p - 1) 1"

definition LENGTH_patch :: "StereoParameters \<Rightarrow> int" where
  "LENGTH_patch p = HALF_LENGTH p * 2 + 1"

text \<open>
  The weights: \<^verbatim>\<open>weightVec[HALF_LENGTH] = HALF_LENGTH + 1\<close>, then for every \<open>i < HALF_LENGTH\<close>
  the two stores \<^verbatim>\<open>weightVec[i] = i + 1\<close> and \<^verbatim>\<open>weightVec[LENGTH - i - 1] = i + 1\<close>.
\<close>

definition weightVec :: "StereoParameters \<Rightarrow> int list" where
  "weightVec p =
     fold (\<lambda>i w. (w[i := int i + 1])[nat (LENGTH_patch p) - i - 1 := int i + 1])
          [0..<nat (HALF_LENGTH p)]
          ((replicate (nat (LENGTH_patch p)) 0)[nat (HALF_LENGTH p) := HALF_LENGTH p + 1])"

definition normalizer :: "StereoParameters \<Rightarrow> int" where
  "normalizer p = sum_list (weightVec p)"

text \<open>
  The descriptor: \<^verbatim>\<open>bilinear(img1, shifted[0], shifted[1])\<close> for \<open>shifted = pt + i * dir\<close>,
  \<open>i\<close> from \<open>-HALF_LENGTH\<close> to \<open>HALF_LENGTH\<close>, each stored in a byte.  The interpolation
  \<^verbatim>\<open>bilinear\<close> is declared outside the sources and is a parameter here.
\<close>

definition descriptorOf ::
    "(Mat8u \<Rightarrow> real \<Rightarrow> real \<Rightarrow> u8) \<Rightarrow> StereoParameters \<Rightarrow> Mat8u \<Rightarrow> Vector2d \<Rightarrow> Vector2d \<Rightarrow> u8 list" where
  "descriptorOf bilinear p img1 pt dir =
     map (\<lambda>i. bilinear img1 (fst pt + real_of_int i * fst dir) (snd pt + real_of_int i * snd dir))
         [- HALF_LENGTH p..HALF_LENGTH p]"

text \<open>
  The band of image 2: \<open>n\<close> samples along the curve, 0 where the rasterizer is outside
  the image, with one \<^verbatim>\<open>raster.step()\<close> after each.
\<close>

fun sampleCurve :: "Mat8u \<Rightarrow> nat \<Rightarrow> CurveRasterizer \<Rightarrow> u8 list" where
  "sampleCurve img2 0 raster = []"
| "sampleCurve img2 (Suc n) raster =
     (if raster_y raster < 0 \<or> raster_y raster \<ge> rows img2
         \<or> raster_x raster < 0 \<or> raster_x raster \<ge> cols img2 then 0
      else pixel img2 (raster_y raster) (raster_x raster))
     # sampleCurve img2 n (rasterStep raster)"

text \<open>
  The body of the loop over \<open>d\<close>:
  \<^verbatim>\<open>bias = min(maxBias, max(-maxBias, (sum2 - sum1) / LENGTH))\<close>,
  \<^verbatim>\<open>acc += abs(descriptor[i] - sampleVec[d + i] + bias) * weightVec[i]\<close> and the store
  \<^verbatim>\<open>*outPtr = acc / normalizer\<close> into a \<^verbatim>\<open>uint8_t\<close>.
\<close>

definition biasAt :: "StereoParameters \<Rightarrow> u8 list \<Rightarrow> u8 list \<Rightarrow> nat \<Rightarrow> int" where
  "biasAt p descriptor sampleVec d =
     (let sum1 = sum_list (map uint descriptor);
          sum2 = sum_list (map uint (take (nat (LENGTH_patch p)) (drop d sampleVec)))
      in min (maxBias p) (max (- maxBias p) ((sum2 - sum1) sdiv LENGTH_patch p)))"

definition accAt :: "StereoParameters \<Rightarrow> u8 list \<Rightarrow> u8 list \<Rightarrow> nat \<Rightarrow> int" where
  "accAt p descriptor sampleVec d =
     (let bias = biasAt p descriptor sampleVec d
      in sum_list (map (\<lambda>i. \<bar>uint (descriptor ! i) - uint (sampleVec ! (d + i)) + bias\<bar> * weightVec p ! i)
                       [0..<nat (LENGTH_patch p)]))"

definition curveCostAt :: "StereoParameters \<Rightarrow> u8 list \<Rightarrow> u8 list \<Rightarrow> nat \<Rightarrow> u8" where
  "curveCostAt p descriptor sampleVec d =
     word_of_int (accAt p descriptor sampleVec d sdiv normalizer p)"

text \<open>
  The body of the loops over \<open>v\<close> and \<open>u\<close>: the block of \<open>dispMax\<close> costs of one pixel.
  A pixel whose direction is NaN gets zeros and the loop continues before any curve is
  looked up.  An index outside \<^verbatim>\<open>pointVec1\<close>, \<^verbatim>\<open>epipolarDirectionVec\<close> or the curve table,
  and a negative size of \<^verbatim>\<open>sampleVec\<close>, have no defined result.
\<close>

definition curveCostPixel ::
    "(Mat8u \<Rightarrow> real \<Rightarrow> real \<Rightarrow> u8) \<Rightarrow> StereoParameters \<Rightarrow> StereoGeometry \<Rightarrow> Mat8u \<Rightarrow> Mat8u
       \<Rightarrow> int \<Rightarrow> int \<Rightarrow> u8 list option" where
  "curveCostPixel bilinear p G img1 img2 u v =
     (let idx = getLinearIndex p u v in
      case nthOpt (pointVec1 G) idx of
        None \<Rightarrow> None
      | Some pt \<Rightarrow>
         (case nthOpt (epipolarDirectionVec G) idx of
            None \<Rightarrow> None
          | Some None \<Rightarrow> Some (replicate (nat (dispMax p)) 0)
          | Some (Some dir) \<Rightarrow>
             (case getCurveRasteriser G idx of
                None \<Rightarrow> None
              | Some raster0 \<Rightarrow>
                 (if dispMax p + LENGTH_patch p - 1 < 0 then None
                  else
                    let descriptor = descriptorOf bilinear p img1 pt dir;
                        raster = rasterSteps (- HALF_LENGTH p) raster0;
                        sampleVec = sampleCurve img2 (nat (dispMax p + LENGTH_patch p - 1)) raster
                    in Some (map (curveCostAt p descriptor sampleVec) [0..<nat (dispMax p)])))))"

definition computeCurveCost ::
    "(Mat8u \<Rightarrow> real \<Rightarrow> real \<Rightarrow> u8) \<Rightarrow> StereoGeometry \<Rightarrow> Mat8u \<Rightarrow> Mat8u
       \<Rightarrow> EnhancedStereo \<Rightarrow> EnhancedStereo option" where
  "computeCurveCost bilinear G img1 img2 st =
     (let p = params st in
      if \<not> volumeShape p (errorBuffer st) then None
      else
        case allLines (map (\<lambda>v. allLines (map (\<lambda>u. curveCostPixel bilinear p G img1 img2 (int u) (int v))
                                               [0..<nat (dispWidth p)]))
                           [0..<nat (dispHeight p)]) of
          None \<Rightarrow> None
        | Some costs \<Rightarrow> Some (st\<lparr>errorBuffer := costs\<rparr>))"

subsection \<open>Pixels without an epipolar direction\<close>

text \<open>
  Claim C8.  A pixel of the working grid whose epipolar direction is NaN never fails in
  the kernel, and after \<^verbatim>\<open>computeCurveCost\<close> its block of the cost volume holds 0 for every
  disparity in \<open>[0, dispMax)\<close>.  (\<^verbatim>\<open>epipolarDirectionVec\<close> is built with one entry per entry
  of \<^verbatim>\<open>pointVec1\<close>.)
\<close>

theorem nan_direction_zero_cost:
  assumes nan: "nthOpt (epipolarDirectionVec G) (getLinearIndex p (int u) (int v)) = Some None"
    and sized: "length (pointVec1 G) = length (epipolarDirectionVec G)"
    and v: "v < nat (dispHeight p)" and u: "u < nat (dispWidth p)"
  shows "curveCostPixel bilinear p G img1 img2 (int u) (int v) = Some (replicate (nat (dispMax p)) 0) \<and>
         (\<forall>st st'. params st = p \<longrightarrow> computeCurveCost bilinear G img1 img2 st = Some st' \<longrightarrow>
            length (errorBuffer st' ! v ! u) = nat (dispMax p) \<and>
            (\<forall>d<nat (dispMax p). errorBuffer st' ! v ! u ! d = 0))"
proof -
  from nan sized have "nthOpt (pointVec1 G) (getLinearIndex p (int u) (int v)) \<noteq> None"
    by (auto simp: nthOpt_def split: if_splits)
  with nan have px: "curveCostPixel bilinear p G img1 img2 (int u) (int v) = Some (replicate (nat (dispMax p)) 0)"
    by (auto simp: curveCostPixel_def Let_def)
  have "length (errorBuffer st' ! v ! u) = nat (dispMax p) \<and>
            (\<forall>d<nat (dispMax p). errorBuffer st' ! v ! u ! d = 0)"
    if p: "params st = p" and run: "computeCurveCost bilinear G img1 img2 st = Some st'" for st st'
  proof -
    from run obtain costs where
      c: "allLines (map (\<lambda>v. allLines (map (\<lambda>u. curveCostPixel bilinear p G img1 img2 (int u) (int v))
                                               [0..<nat (dispWidth p)]))
                           [0..<nat (dispHeight p)]) = Some costs"
      and st': "st' = st\<lparr>errorBuffer := costs\<rparr>"
      by (auto simp: computeCurveCost_def Let_def p split: if_splits option.splits)
    from allLines_SomeD[OF c] v
    have row: "allLines (map (\<lambda>u. curveCostPixel bilinear p G img1 img2 (int u) (int v))
                 [0..<nat (dispWidth p)]) = Some (costs ! v)" by simp
    from allLines_SomeD[OF row] u
    have "curveCostPixel bilinear p G img1 img2 (int u) (int v) = Some (costs ! v ! u)" by simp
    with px have "costs ! v ! u = replicate (nat (dispMax p)) 0" by simp
    then show ?thesis by (simp add: st')
  qed
  with px show ?thesis by blast
qed

text \<open>
  A grid of two pixels on the line \<open>v = 0\<close>: the first has the direction \<open>(1, 0)\<close>, the
  second has none.  Image 2 is the ramp \<open>10 x\<close>, sampled along the curve from two pixels
  before the pixel at infinite depth.
\<close>

definition lineV0 :: Polynomial2 where
  "lineV0 = \<lparr>kuu = 0, kuv = 0, kvv = 0, ku = 0, kv = 1, k1 = 0\<rparr>"

definition epipolarEx :: EnhancedEpipolar where
  "epipolarEx = \<lparr>nSteps = 2, step = 2, epipole = (10, 0),
      xBase = (1, 0, 0), yBase = (0, 1, 0), zBase = (0, 0, 1),
      epipolarVec = [Some lineV0, Some lineV0, Some lineV0]\<rparr>"

definition geometryEx :: StereoGeometry where
  "geometryEx = \<lparr>pointVec1 = [(2, 0), (3, 0)], reconstVec = [(1, 0, 1), (1, 0, 1)],
      epipolarDirectionVec = [Some (1, 0), None],
      pinfPxVec = [(2, 0), (3, 0)], epipolePx = (10, 0), epipolar = epipolarEx,
      rotMat = ((1, 0, 0), (0, 1, 0), (0, 0, 1)), transl = (1, 0, 0),
      reconstructPoint1 = (\<lambda>(a, b). Some (a, b, 1)),
      reconstructPoint2 = (\<lambda>(a, b). Some (a, b, 1))\<rparr>"

definition paramsEx :: StereoParameters where
  "paramsEx = \<lparr>dispWidth = 2, dispHeight = 1, dispMax = 3, lambdaStep = 5, lambdaJump = 32,
      scale = 3, maxBias = 10, maxDistance = 100\<rparr>"

definition stereoEx :: EnhancedStereo where
  "stereoEx = \<lparr>params = paramsEx,
      errorBuffer = [[[7, 7, 7], [7, 7, 7]]],
      tableauLeft = [], tableauRight = [], tableauTop = [], tableauBottom = [],
      smallDisparity = [[0, 0]]\<rparr>"

definition imageEx :: Mat8u where
  "imageEx = \<lparr>rows = 1, cols = 8, pixel = (\<lambda>y x. word_of_int (10 * x))\<rparr>"

definition nearest :: "Mat8u \<Rightarrow> real \<Rightarrow> real \<Rightarrow> u8" where
  "nearest img a b = pixel img \<lfloor>b\<rfloor> \<lfloor>a\<rfloor>"


lemma stereoEx_cost:
  "computeCurveCost nearest geometryEx imageEx imageEx stereoEx =
     Some (stereoEx\<lparr>errorBuffer := [[[0, 0, 10], [0, 0, 0]]]\<rparr>)"
  by code_simp

theorem nan_direction_zero_cost_witness:
  "nthOpt (epipolarDirectionVec geometryEx) (getLinearIndex paramsEx (int 1) (int 0)) = Some None \<and>
   length (pointVec1 geometryEx) = length (epipolarDirectionVec geometryEx) \<and>
   (0::nat) < nat (dispHeight paramsEx) \<and> (1::nat) < nat (dispWidth paramsEx) \<and>
   curveCostPixel nearest paramsEx geometryEx imageEx imageEx (int 1) (int 0) = Some [0, 0, 0] \<and>
   (\<exists>st'. computeCurveCost nearest geometryEx imageEx imageEx stereoEx = Some st' \<and>
      errorBuffer st' ! 0 ! 0 = [0, 0, 10] \<and> length (errorBuffer st' ! 0 ! 1) = 3 \<and>
      errorBuffer st' ! 0 ! 1 ! 0 = 0 \<and> errorBuffer st' ! 0 ! 1 ! 1 = 0 \<and>
      errorBuffer st' ! 0 ! 1 ! 2 = 0)"
proof -
  have h1: "nthOpt (epipolarDirectionVec geometryEx) (getLinearIndex paramsEx (int 1) (int 0)) = Some None"
    by (simp add: nthOpt_def geometryEx_def getLinearIndex_def paramsEx_def)
  have h2: "length (pointVec1 geometryEx) = length (epipolarDirectionVec geometryEx)"
    by (simp add: geometryEx_def)
  have h3: "(0::nat) < nat (dispHeight paramsEx)" and h4: "(1::nat) < nat (dispWidth paramsEx)"
    by (simp_all add: paramsEx_def)
  have D: "nat (dispMax paramsEx) = 3" by (simp add: paramsEx_def)
  note t = nan_direction_zero_cost[OF h1 h2 h3 h4, of nearest imageEx imageEx]
  from t have px: "curveCostPixel nearest paramsEx geometryEx imageEx imageEx (int 1) (int 0) = Some [0, 0, 0]"
    by (simp add: D numeral_3_eq_3)
  have p: "params stereoEx = paramsEx" by (simp add: stereoEx_def)
  from t p stereoEx_cost
  have z: "length (errorBuffer (stereoEx\<lparr>errorBuffer := [[[0, 0, 10], [0, 0, 0]]]\<rparr>) ! 0 ! 1) = nat (dispMax paramsEx)"
    "\<forall>d<nat (dispMax paramsEx). errorBuffer (stereoEx\<lparr>errorBuffer := [[[0, 0, 10], [0, 0, 0]]]\<rparr>) ! 0 ! 1 ! d = 0"
    by blast+
  have e: "errorBuffer (stereoEx\<lparr>errorBuffer := [[[0, 0, 10], [0, 0, 0]]]\<rparr>) ! 0 ! 0 = [0, 0, 10]"
    by simp
  from z(2) have z0: "errorBuffer (stereoEx\<lparr>errorBuffer := [[[0, 0, 10], [0, 0, 0]]]\<rparr>) ! 0 ! 1 ! 0 = 0"
    and z1: "errorBuffer (stereoEx\<lparr>errorBuffer := [[[0, 0, 10], [0, 0, 0]]]\<rparr>) ! 0 ! 1 ! 1 = 0"
    and z2: "errorBuffer (stereoEx\<lparr>errorBuffer := [[[0, 0, 10], [0, 0, 0]]]\<rparr>) ! 0 ! 1 ! 2 = 0"
    by (simp_all add: D)
  from z(1) have zl: "length (errorBuffer (stereoEx\<lparr>errorBuffer := [[[0, 0, 10], [0, 0, 0]]]\<rparr>) ! 0 ! 1) = 3"
    by (simp add: D)
  from h1 h2 h3 h4 px stereoEx_cost e zl z0 z1 z2 show ?thesis by blast
qed

subsection \<open>Window, weights, bias and the stored cost\<close>

text \<open>
  The half-length is \<open>max(scale - 1, 1)\<close> by definition of \<open>HALF_LENGTH\<close>; the weights are
  symmetric and rise by one per sample to \<open>HALF_LENGTH + 1\<close> in the middle.
\<close>

lemma HALF_LENGTH_pos: "1 \<le> HALF_LENGTH p"
  by (simp add: HALF_LENGTH_def)

lemma weightVec_fold:
  fixes h :: nat
  defines "n \<equiv> 2 * h + 1"
  assumes "k \<le> h"
  shows "length (fold (\<lambda>i w. (w[i := int i + 1])[n - i - 1 := int i + 1]) [0..<k]
                  ((replicate n 0)[h := int h + 1])) = n \<and>
         (\<forall>j<n. fold (\<lambda>i w. (w[i := int i + 1])[n - i - 1 := int i + 1]) [0..<k]
                  ((replicate n 0)[h := int h + 1]) ! j =
            (if j < k then int j + 1 else if n - k \<le> j then int (n - j)
             else if j = h then int h + 1 else 0))"
  using assms(2)
proof (induction k)
  case 0
  have hn: "h < n" by (simp add: n_def)
  then show ?case by (auto simp: nth_list_update)
next
  case (Suc k)
  define w where "w = fold (\<lambda>i w. (w[i := int i + 1])[n - i - 1 := int i + 1]) [0..<k]
                  ((replicate n 0)[h := int h + 1])"
  from Suc have len: "length w = n"
    and nth: "\<And>j. j < n \<Longrightarrow> w ! j = (if j < k then int j + 1 else if n - k \<le> j then int (n - j)
             else if j = h then int h + 1 else 0)"
    by (simp_all add: w_def)
  have step: "fold (\<lambda>i w. (w[i := int i + 1])[n - i - 1 := int i + 1]) [0..<Suc k]
                  ((replicate n 0)[h := int h + 1]) = (w[k := int k + 1])[n - k - 1 := int k + 1]"
    by (simp add: w_def)
  have kh: "k < h" using Suc.prems by simp
  show ?case unfolding step
  proof (intro conjI allI impI)
    show "length (w[k := int k + 1, n - k - 1 := int k + 1]) = n" using len by simp
  next
    fix j assume j: "j < n"
    show "w[k := int k + 1, n - k - 1 := int k + 1] ! j =
         (if j < Suc k then int j + 1 else if n - Suc k \<le> j then int (n - j)
          else if j = h then int h + 1 else 0)"
      using j kh len nth[OF j] by (auto simp: nth_list_update n_def)
  qed
qed

lemma weightVec_nth:
  assumes "j < nat (LENGTH_patch p)"
  shows "length (weightVec p) = nat (LENGTH_patch p)"
    and "weightVec p ! j = min (int j) (2 * HALF_LENGTH p - int j) + 1"
proof -
  define h where "h = nat (HALF_LENGTH p)"
  have hp: "HALF_LENGTH p = int h" "1 \<le> h" using HALF_LENGTH_pos[of p] by (simp_all add: h_def)
  have n: "nat (LENGTH_patch p) = 2 * h + 1" by (simp add: LENGTH_patch_def hp)
  have w: "weightVec p = fold (\<lambda>i w. (w[i := int i + 1])[(2 * h + 1) - i - 1 := int i + 1]) [0..<h]
                  ((replicate (2 * h + 1) 0)[h := int h + 1])"
    by (simp add: weightVec_def n hp)
  from weightVec_fold[of h h] show "length (weightVec p) = nat (LENGTH_patch p)"
    by (simp add: w n)
  from weightVec_fold[of h h] assms show "weightVec p ! j = min (int j) (2 * HALF_LENGTH p - int j) + 1"
    by (auto simp: w n hp)
qed

text \<open>The stored byte is the quotient whenever the quotient fits a byte.\<close>

lemma curveCostAt_fits:
  assumes "0 \<le> accAt p descriptor sampleVec d sdiv normalizer p"
    and "accAt p descriptor sampleVec d sdiv normalizer p < 256"
  shows "uint (curveCostAt p descriptor sampleVec d) = accAt p descriptor sampleVec d sdiv normalizer p"
  using assms by (simp add: curveCostAt_def uint_word_of_int take_bit_int_eq_self)

definition paramsC6 :: StereoParameters where
  "paramsC6 = \<lparr>dispWidth = 1, dispHeight = 1, dispMax = 1, lambdaStep = 5, lambdaJump = 32,
      scale = 3, maxBias = 10, maxDistance = 100\<rparr>"

lemma weightVec_C6: "weightVec paramsC6 = [1, 2, 3, 2, 1]"
  by code_simp

lemma normalizer_C6: "normalizer paramsC6 = 9"
  by code_simp

text \<open>
  Claim C6 at a window where the quotient does not fit.  With \<open>scale = 3\<close> and
  \<open>maxBias = 10\<close> the weights are 1, 2, 3, 2, 1 and their sum is 9.  For the descriptor
  \<open>0, 0, 255, 255, 0\<close> against the window \<open>255, 255, 0, 0, 255\<close> the bias is 10, the weighted
  sum of absolute differences is 2305 and the normalised sum is 256; the byte stored in
  the cost volume is 0.
\<close>

theorem curveCost_wraps:
  "biasAt paramsC6 [0, 0, 255, 255, 0] [255, 255, 0, 0, 255] 0 = 10 \<and>
   accAt paramsC6 [0, 0, 255, 255, 0] [255, 255, 0, 0, 255] 0 = 2305 \<and>
   accAt paramsC6 [0, 0, 255, 255, 0] [255, 255, 0, 0, 255] 0 sdiv normalizer paramsC6 = 256 \<and>
   curveCostAt paramsC6 [0, 0, 255, 255, 0] [255, 255, 0, 0, 255] 0 = 0"
  by code_simp

section \<open>Triangulation and distance\<close>

text \<open>
  \<^verbatim>\<open>triangulate(x1, y1, x2, y2, X)\<close>: the returned flag and the point written to \<open>X\<close>.
  The second camera is asked only when the first succeeded.
\<close>

definition triangulate :: "StereoGeometry \<Rightarrow> real \<Rightarrow> real \<Rightarrow> real \<Rightarrow> real \<Rightarrow> bool \<times> Vector3d" where
  "triangulate G x1 y1 x2 y2 =
    (case reconstructPoint1 G (x1, y1) of
       None \<Rightarrow> (False, (0, 0, 0))
     | Some v1 \<Rightarrow>
        (case reconstructPoint2 G (x2, y2) of
           None \<Rightarrow> (False, (0, 0, 0))
         | Some v2c \<Rightarrow>
            (let t = transl G;
                 v2 = mulMV (rotMat G) v2c;
                 v1v2 = dot v1 v2;
                 v1v1 = dot v1 v1;
                 v2v2 = dot v2 v2;
                 tv1 = dot t v1;
                 tv2 = dot t v2;
                 delta = - v1v1 * v2v2 + v1v2 * v1v2
             in if \<bar>delta\<bar> < 1 / 10 ^ 10 then (False, (0, 0, 0))
                else
                  let l1 = (- tv1 * v2v2 + tv2 * v1v2) / delta;
                      l2 = (tv2 * v1v1 - tv1 * v1v2) / delta
                  in (True, scaleV (1 / 2) (addV (addV (scaleV l1 v1) t) (scaleV l2 v2))))))"


subsection \<open>The two rays and their closest points\<close>

text \<open>
  The words of the specification: the two rays in the frame of camera 1 (none when a
  camera cannot reconstruct its pixel), the determinant of the normal equations, the
  point on each ray closest to the other ray, and their midpoint.
\<close>

definition subV :: "Vector3d \<Rightarrow> Vector3d \<Rightarrow> Vector3d" where
  "subV a b = addV a (scaleV (- 1) b)"

definition raysOf :: "StereoGeometry \<Rightarrow> real \<Rightarrow> real \<Rightarrow> real \<Rightarrow> real \<Rightarrow> (Vector3d \<times> Vector3d) option" where
  "raysOf G x1 y1 x2 y2 =
     (case reconstructPoint1 G (x1, y1) of
        None \<Rightarrow> None
      | Some v1 \<Rightarrow>
         (case reconstructPoint2 G (x2, y2) of
            None \<Rightarrow> None
          | Some v2c \<Rightarrow> Some (v1, mulMV (rotMat G) v2c)))"

definition delta_of :: "Vector3d \<Rightarrow> Vector3d \<Rightarrow> real" where
  "delta_of v1 v2 = - (dot v1 v1) * (dot v2 v2) + (dot v1 v2)\<^sup>2"

definition closestOnFirst :: "Vector3d \<Rightarrow> Vector3d \<Rightarrow> Vector3d \<Rightarrow> Vector3d" where
  "closestOnFirst t v1 v2 =
     scaleV ((- dot t v1 * dot v2 v2 + dot t v2 * dot v1 v2) / delta_of v1 v2) v1"

definition closestOnSecond :: "Vector3d \<Rightarrow> Vector3d \<Rightarrow> Vector3d \<Rightarrow> Vector3d" where
  "closestOnSecond t v1 v2 =
     addV t (scaleV ((dot t v2 * dot v1 v1 - dot t v1 * dot v1 v2) / delta_of v1 v2) v2)"

definition midpoint :: "Vector3d \<Rightarrow> Vector3d \<Rightarrow> Vector3d" where
  "midpoint a b = scaleV (1 / 2) (addV a b)"

lemma dot_addV: "dot (addV a b) c = dot a c + dot b c"
  by (cases a; cases b; cases c) (simp add: dot_def addV_def algebra_simps)

lemma dot_scaleV: "dot (scaleV k a) c = k * dot a c"
  by (cases a; cases c) (simp add: dot_def scaleV_def algebra_simps)

lemma dot_commute: "dot a b = dot b a"
  by (cases a; cases b) (simp add: dot_def algebra_simps)

lemma addV_assoc: "addV (addV a b) c = addV a (addV b c)"
  by (cases a; cases b; cases c) (simp add: addV_def)

lemma closest_orthogonal:
  assumes "delta_of v1 v2 \<noteq> 0"
  shows "dot (subV (closestOnFirst t v1 v2) (closestOnSecond t v1 v2)) v1 = 0"
    and "dot (subV (closestOnFirst t v1 v2) (closestOnSecond t v1 v2)) v2 = 0"
proof -
  define a where "a = dot v1 v1"
  define b where "b = dot v2 v2"
  define c where "c = dot v1 v2"
  define p where "p = dot t v1"
  define q where "q = dot t v2"
  define dl where "dl = delta_of v1 v2"
  have dl: "dl = - a * b + c * c" by (simp add: dl_def delta_of_def a_def b_def c_def power2_eq_square)
  have nz: "dl \<noteq> 0" using assms by (simp add: dl_def)
  have c': "dot v2 v1 = c" by (simp add: c_def dot_commute)
  have "dot (subV (closestOnFirst t v1 v2) (closestOnSecond t v1 v2)) v1
        = (- p * b + q * c) / dl * a - (p + (q * a - p * c) / dl * c)"
    by (simp add: subV_def closestOnFirst_def closestOnSecond_def dot_addV dot_scaleV
        a_def b_def c_def p_def q_def dl_def c'[unfolded c_def])
  also have "\<dots> = 0" using nz by (simp add: field_simps dl)
  finally show "dot (subV (closestOnFirst t v1 v2) (closestOnSecond t v1 v2)) v1 = 0" .
  have "dot (subV (closestOnFirst t v1 v2) (closestOnSecond t v1 v2)) v2
        = (- p * b + q * c) / dl * c - (q + (q * a - p * c) / dl * b)"
    by (simp add: subV_def closestOnFirst_def closestOnSecond_def dot_addV dot_scaleV
        a_def b_def c_def p_def q_def dl_def)
  also have "\<dots> = 0" using nz by (simp add: field_simps dl)
  finally show "dot (subV (closestOnFirst t v1 v2) (closestOnSecond t v1 v2)) v2 = 0" .
qed

lemma triangulate_rays:
  "triangulate G x1 y1 x2 y2 =
     (case raysOf G x1 y1 x2 y2 of
        None \<Rightarrow> (False, (0, 0, 0))
      | Some (v1, v2) \<Rightarrow>
         if \<bar>delta_of v1 v2\<bar> < 1 / 10 ^ 10 then (False, (0, 0, 0))
         else (True, midpoint (closestOnFirst (transl G) v1 v2) (closestOnSecond (transl G) v1 v2)))"
  by (simp add: triangulate_def raysOf_def delta_of_def closestOnFirst_def closestOnSecond_def
      midpoint_def Let_def power2_eq_square addV_assoc split: option.splits)

text \<open>
  Claim C3.  \<^verbatim>\<open>triangulate\<close> returns false with the zero vector exactly when a pixel's ray
  cannot be reconstructed by its camera or the determinant
  \<open>delta = -(v1.v1)(v2.v2) + (v1.v2)\<^sup>2\<close> is below \<open>10\<^sup>-\<^sup>1\<^sup>0\<close> in magnitude.  In every other case it
  returns true with the midpoint \<open>(v1 l1 + t + v2 l2) / 2\<close> of the points \<open>v1 l1\<close> and
  \<open>t + v2 l2\<close>, and the segment between these two points is orthogonal to both rays: they
  are the points of closest approach.  (Doubles are reals here.)
\<close>

theorem triangulate_cases:
  "(triangulate G x1 y1 x2 y2 = (False, (0, 0, 0)) \<longleftrightarrow>
      raysOf G x1 y1 x2 y2 = None \<or>
      (\<exists>v1 v2. raysOf G x1 y1 x2 y2 = Some (v1, v2) \<and> \<bar>delta_of v1 v2\<bar> < 1 / 10 ^ 10)) \<and>
   (\<forall>v1 v2. raysOf G x1 y1 x2 y2 = Some (v1, v2) \<longrightarrow> \<not> \<bar>delta_of v1 v2\<bar> < 1 / 10 ^ 10 \<longrightarrow>
      triangulate G x1 y1 x2 y2 =
        (True, midpoint (closestOnFirst (transl G) v1 v2) (closestOnSecond (transl G) v1 v2)) \<and>
      dot (subV (closestOnFirst (transl G) v1 v2) (closestOnSecond (transl G) v1 v2)) v1 = 0 \<and>
      dot (subV (closestOnFirst (transl G) v1 v2) (closestOnSecond (transl G) v1 v2)) v2 = 0)"
proof (intro conjI allI impI)
  show "triangulate G x1 y1 x2 y2 = (False, (0, 0, 0)) \<longleftrightarrow>
      raysOf G x1 y1 x2 y2 = None \<or>
      (\<exists>v1 v2. raysOf G x1 y1 x2 y2 = Some (v1, v2) \<and> \<bar>delta_of v1 v2\<bar> < 1 / 10 ^ 10)"
    by (auto simp: triangulate_rays split: option.splits)
next
  fix v1 v2
  assume r: "raysOf G x1 y1 x2 y2 = Some (v1, v2)" and d: "\<not> \<bar>delta_of v1 v2\<bar> < 1 / 10 ^ 10"
  show "triangulate G x1 y1 x2 y2 =
        (True, midpoint (closestOnFirst (transl G) v1 v2) (closestOnSecond (transl G) v1 v2))"
    using r d by (simp add: triangulate_rays)
  from d have nz: "delta_of v1 v2 \<noteq> 0" by auto
  show "dot (subV (closestOnFirst (transl G) v1 v2) (closestOnSecond (transl G) v1 v2)) v1 = 0"
    by (rule closest_orthogonal(1)[OF nz])
  show "dot (subV (closestOnFirst (transl G) v1 v2) (closestOnSecond (transl G) v1 v2)) v2 = 0"
    by (rule closest_orthogonal(2)[OF nz])
qed


text \<open>
  With identity rotation and baseline \<open>(1, 0, 0)\<close>: the rays through \<open>(0, 0, 1)\<close> meet there;
  two equal directions are parallel.
\<close>

lemma raysEx:
  "raysOf geometryEx 0 0 (- 1) 0 = Some ((0, 0, 1), (- 1, 0, 1))"
  "raysOf geometryEx 0 0 0 0 = Some ((0, 0, 1), (0, 0, 1))"
  by (simp_all add: raysOf_def geometryEx_def mulMV_def dot_def)

lemma deltaEx:
  "delta_of (0, 0, 1) (- 1, 0, 1) = - 1" "delta_of (0, 0, 1) (0, 0, 1) = 0"
  by (simp_all add: delta_of_def dot_def)

lemma midpointEx:
  "midpoint (closestOnFirst (transl geometryEx) (0, 0, 1) (- 1, 0, 1))
            (closestOnSecond (transl geometryEx) (0, 0, 1) (- 1, 0, 1)) = (0, 0, 1)"
  by (simp add: midpoint_def closestOnFirst_def closestOnSecond_def deltaEx geometryEx_def
      dot_def scaleV_def addV_def)

theorem triangulate_cases_witness:
  "raysOf geometryEx 0 0 (- 1) 0 = Some ((0, 0, 1), (- 1, 0, 1)) \<and>
   \<not> \<bar>delta_of (0, 0, 1) (- 1, 0, 1)\<bar> < 1 / 10 ^ 10 \<and>
   triangulate geometryEx 0 0 (- 1) 0 = (True, (0, 0, 1)) \<and>
   raysOf geometryEx 0 0 0 0 = Some ((0, 0, 1), (0, 0, 1)) \<and>
   \<bar>delta_of (0, 0, 1) (0, 0, 1)\<bar> < 1 / 10 ^ 10 \<and>
   triangulate geometryEx 0 0 0 0 = (False, (0, 0, 0))"
proof -
  have d1: "\<not> \<bar>delta_of (0, 0, 1) (- 1, 0, 1)\<bar> < 1 / 10 ^ 10" by (simp add: deltaEx)
  have d2: "\<bar>delta_of (0, 0, 1) (0, 0, 1)\<bar> < 1 / 10 ^ 10" by (simp add: deltaEx)
  from triangulate_cases[of geometryEx 0 0 "- 1" 0] raysEx(1) d1
  have "triangulate geometryEx 0 0 (- 1) 0 =
      (True, midpoint (closestOnFirst (transl geometryEx) (0, 0, 1) (- 1, 0, 1))
                      (closestOnSecond (transl geometryEx) (0, 0, 1) (- 1, 0, 1)))"
    by blast
  then have t1: "triangulate geometryEx 0 0 (- 1) 0 = (True, (0, 0, 1))"
    by (simp only: midpointEx)
  from triangulate_cases[of geometryEx 0 0 0 0] raysEx(2) d2
  have t2: "triangulate geometryEx 0 0 0 0 = (False, (0, 0, 0))" by blast
  from raysEx d1 d2 t1 t2 show ?thesis by blast
qed

subsection \<open>Distance of a pixel\<close>









section \<open>Properties of the curve table\<close>

lemma EnhancedEpipolar_new_SomeD:
  assumes "EnhancedEpipolar_new translation R21 cam2 projectPoint n = Some E"
  shows "n mod 2 = 0" "0 < n" "nSteps E = n" "step E = 4 / real_of_int n"
    "length (epipolarVec E) = nat n + 1"
    "epipole E = projectPoint (mulMV R21 (zBase E))"
    "\<forall>i<nat n. epipolarVec E ! i =
        curveOfPlane cam2 (epipole E)
          (cross (mulMV R21 (binDirection n (step E) (xBase E) (yBase E) (int i))) (mulMV R21 (zBase E)))"
    "epipolarVec E ! nat n = epipolarVec E ! 0"
    "zBase E = scaleV (- 1) (normalizedV translation)"
    "xBase E = (let x0 = (case zBase E of (z0, z1, z2) \<Rightarrow>
                   if z2 * z2 > z0 * z0 + z1 * z1 then (1, 0, 0) else (0, 0, 1));
                    x1 = addV x0 (scaleV (- dot (zBase E) x0) (zBase E))
                in normalizedV x1)"
    "yBase E = cross (zBase E) (xBase E)"
proof -
  define stp where "stp = 4 / real_of_int n"
  define zB where "zB = scaleV (- 1) (normalizedV translation)"
  define x0 :: Vector3d where "x0 = (case zB of (z0, z1, z2) \<Rightarrow>
                   if z2 * z2 > z0 * z0 + z1 * z1 then (1, 0, 0) else (0, 0, 1))"
  define x1 where "x1 = addV x0 (scaleV (- dot zB x0) zB)"
  define xB where "xB = normalizedV x1"
  define yB where "yB = cross zB xB"
  define epi where "epi = projectPoint (mulMV R21 zB)"
  define f where "f = (\<lambda>idx. curveOfPlane cam2 epi
                           (cross (mulMV R21 (binDirection n stp xB yB idx)) (mulMV R21 zB)))"
  define curves where "curves = map f [0..n - 1]"
  have even: "n mod 2 = 0" using assms by (auto simp: EnhancedEpipolar_new_def split: if_splits)
  have ne: "curves \<noteq> []" and E: "E = \<lparr>nSteps = n, step = stp, epipole = epi,
                    xBase = xB, yBase = yB, zBase = zB, epipolarVec = curves @ [hd curves]\<rparr>"
    using assms even
    by (auto simp: EnhancedEpipolar_new_def Let_def stp_def[symmetric] zB_def[symmetric]
        x0_def[symmetric] x1_def[symmetric] xB_def[symmetric] yB_def[symmetric] epi_def[symmetric]
        f_def[symmetric] curves_def[symmetric] split: list.splits)
  from ne have pos: "0 < n" by (auto simp: curves_def)
  have len: "length curves = nat n" by (simp add: curves_def)
  have nth: "curves ! i = f (int i)" if "i < nat n" for i
    using that by (simp add: curves_def)
  show "n mod 2 = 0" by (rule even)
  show "0 < n" by (rule pos)
  show "nSteps E = n" by (simp add: E)
  show "step E = 4 / real_of_int n" by (simp add: E stp_def)
  show "length (epipolarVec E) = nat n + 1" by (simp add: E len)
  show "epipole E = projectPoint (mulMV R21 (zBase E))" by (simp add: E epi_def)
  show "\<forall>i<nat n. epipolarVec E ! i =
        curveOfPlane cam2 (epipole E)
          (cross (mulMV R21 (binDirection n (step E) (xBase E) (yBase E) (int i))) (mulMV R21 (zBase E)))"
    using nth by (simp add: E nth_append len f_def)
  show "epipolarVec E ! nat n = epipolarVec E ! 0"
    using ne pos by (simp add: E nth_append len hd_conv_nth)
  show "zBase E = scaleV (- 1) (normalizedV translation)" by (simp add: E zB_def)
  show "xBase E = (let x0 = (case zBase E of (z0, z1, z2) \<Rightarrow>
                   if z2 * z2 > z0 * z0 + z1 * z1 then (1, 0, 0) else (0, 0, 1));
                    x1 = addV x0 (scaleV (- dot (zBase E) x0) (zBase E))
                in normalizedV x1)"
    by (simp add: E xB_def x1_def x0_def Let_def)
  show "yBase E = cross (zBase E) (xBase E)" by (simp add: E yB_def)
qed

lemma EnhancedEpipolar_new_Some:
  assumes "n mod 2 = 0" "0 < n"
  shows "\<exists>E. EnhancedEpipolar_new translation R21 cam2 projectPoint n = Some E"
proof -
  have "[0..n - 1] \<noteq> []" using assms(2) by simp
  then obtain a as where "[0..n - 1] = a # as" by (cases "[0..n - 1]") auto
  then show ?thesis using assms(1)
    by (simp add: EnhancedEpipolar_new_def Let_def)
qed

lemma cround_bounds:
  assumes "0 \<le> r" "r \<le> real_of_int k"
  shows "0 \<le> cround r" "cround r \<le> k"
proof -
  show "0 \<le> cround r" using assms(1) by (simp add: cround_def)
  have "r + 1 / 2 < real_of_int (k + 1)" using assms(2) by simp
  then have "\<lfloor>r + 1 / 2\<rfloor> < k + 1" by (simp only: floor_less_iff)
  then show "cround r \<le> k" using assms(1) by (simp add: cround_def)
qed

lemma index_range:
  assumes n: "nSteps E = 2 * m" and m: "0 < m" and st: "step E = 4 / real_of_int (nSteps E)"
  shows "0 \<le> index E X \<and> index E X \<le> nSteps E"
proof -
  define c where "c = dot X (xBase E)"
  define s where "s = dot X (yBase E)"
  have stp: "step E = 2 / real_of_int m" using st n by simp
  have half: "nSteps E sdiv 2 = m" using n m by (simp add: signed_divide_int_def)
  have mr: "0 < real_of_int m" using m by simp
  have scale: "0 \<le> a * real_of_int m / 2 \<and> a * real_of_int m / 2 \<le> real_of_int m"
    if "0 \<le> a" "a \<le> 2" for a :: real
  proof -
    have "a * real_of_int m \<le> 2 * real_of_int m" using that(2) mr by (intro mult_right_mono) auto
    moreover have "0 \<le> a * real_of_int m" using that(1) mr by simp
    ultimately show ?thesis by simp
  qed
  consider "\<bar>c\<bar> + \<bar>s\<bar> < 1 / 10000" | "\<not> \<bar>c\<bar> + \<bar>s\<bar> < 1 / 10000" "\<bar>c\<bar> > \<bar>s\<bar>"
    | "\<not> \<bar>c\<bar> + \<bar>s\<bar> < 1 / 10000" "\<not> \<bar>c\<bar> > \<bar>s\<bar>" by blast
  then show ?thesis
  proof cases
    case 1
    then show ?thesis using n m by (simp add: index_def Let_def c_def s_def)
  next
    case 2
    then have cz: "c \<noteq> 0" by auto
    from 2 have "\<bar>s / c\<bar> < 1" using cz by (simp add: abs_divide)
    then have "s / c < 1 \<and> - (s / c) < 1" by (simp only: abs_less_iff)
    then have r: "0 \<le> s / c + 1" "s / c + 1 \<le> 2" by linarith+
    have q: "(s / c + 1) / step E = (s / c + 1) * real_of_int m / 2" using mr by (simp add: stp)
    from scale[OF r] have "0 \<le> (s / c + 1) / step E" "(s / c + 1) / step E \<le> real_of_int m"
      unfolding q by simp_all
    then have "0 \<le> cround ((s / c + 1) / step E)" "cround ((s / c + 1) / step E) \<le> m"
      by (rule cround_bounds)+
    then show ?thesis using 2 n m by (simp add: index_def Let_def c_def[symmetric] s_def[symmetric])
  next
    case 3
    then have sz: "s \<noteq> 0" by auto
    from 3 have "\<bar>c / s\<bar> \<le> 1" using sz by (simp add: abs_divide)
    then have "c / s \<le> 1 \<and> - (c / s) \<le> 1" by (simp only: abs_le_iff)
    then have r: "0 \<le> 1 - c / s" "1 - c / s \<le> 2" by linarith+
    have q: "(1 - c / s) / step E = (1 - c / s) * real_of_int m / 2" using mr by (simp add: stp)
    from scale[OF r] have "0 \<le> (1 - c / s) / step E" "(1 - c / s) / step E \<le> real_of_int m"
      unfolding q by simp_all
    then have "0 \<le> cround ((1 - c / s) / step E)" "cround ((1 - c / s) / step E) \<le> m"
      by (rule cround_bounds)+
    then show ?thesis using 3 n m half
      by (simp add: index_def Let_def c_def[symmetric] s_def[symmetric])
  qed
qed

text \<open>
  Claim C10.  For a table built by the constructor and every ray \<open>X\<close>, \<^verbatim>\<open>index(X)\<close> lies in
  \<open>[0, nSteps]\<close>; the table has \<open>nSteps + 1\<close> curves, the last a copy of the first, so
  \<^verbatim>\<open>getCurve(index(X))\<close> reads inside the table.  (Doubles are reals here.)
\<close>

theorem index_within_table:
  assumes "EnhancedEpipolar_new translation R21 cam2 projectPoint numberSteps = Some E"
  shows "0 \<le> index E X \<and> index E X \<le> nSteps E \<and>
         int (length (epipolarVec E)) = nSteps E + 1 \<and>
         epipolarVec E ! nat (nSteps E) = epipolarVec E ! 0 \<and>
         getCurveOfRay E X = Some (epipolarVec E ! nat (index E X))"
proof -
  note d = EnhancedEpipolar_new_SomeD[OF assms]
  from d(1,2) obtain m where m: "numberSteps = 2 * m" "0 < m" by (auto elim!: evenE simp: even_iff_mod_2_eq_zero[symmetric])
  have r: "0 \<le> index E X \<and> index E X \<le> nSteps E"
    using index_range[of E m X] m d(3,4) by simp
  have len: "int (length (epipolarVec E)) = nSteps E + 1" using d(2,3,5) by simp
  with r have "getCurveOfRay E X = Some (epipolarVec E ! nat (index E X))"
    by (simp add: getCurveOfRay_def getCurve_def)
  with r len d(3,8) show ?thesis by simp
qed


lemma passesThroughCentre_quotient:
  "A * A + B * B \<noteq> 0 \<Longrightarrow>
     passesThroughCentre cam2 (A, B, C) \<longleftrightarrow> C * C * (fu cam2 * fv cam2) / (A * A + B * B) < 1 / 2"
  "A * A + B * B = 0 \<Longrightarrow> passesThroughCentre cam2 (A, B, C) \<longleftrightarrow> C * C * (fu cam2 * fv cam2) < 0"
  by (auto simp: passesThroughCentre_def Let_def)

lemma conicCurve_through_epipole:
  "conicCurve cam2 epi plane = Some c \<Longrightarrow> curveValue c (fst epi) (snd epi) = 0"
  by (cases plane) (auto simp: conicCurve_def Let_def curveValue_def split: if_splits)

lemma conicCurve_Some:
  assumes "fu cam2 \<noteq> 0" "fv cam2 \<noteq> 0" "C \<noteq> 0"
  shows "\<exists>c. conicCurve cam2 epi (A, B, C) = Some c"
  using assms by (simp add: conicCurve_def Let_def)

lemma lineCurve_Some:
  assumes "fu cam2 \<noteq> 0" "fv cam2 \<noteq> 0"
  shows "lineCurve cam2 (A, B, C) =
     Some \<lparr>kuu = 0, kuv = 0, kvv = 0, ku = A / fu cam2, kv = B / fv cam2,
           k1 = - u0 cam2 * A / fu cam2 - v0 cam2 * B / fv cam2\<rparr>"
  using assms by (simp add: lineCurve_def)

text \<open>When the test fails on a plane other than zero, \<open>C\<close> is not zero.\<close>

lemma not_passesThroughCentre_C:
  assumes "\<not> passesThroughCentre cam2 (A, B, C)" "(A, B, C) \<noteq> (0, 0, 0)"
  shows "C \<noteq> 0"
proof
  assume C: "C = 0"
  with assms(2) have "A \<noteq> 0 \<or> B \<noteq> 0" by simp
  then have "passesThroughCentre cam2 (A, B, C)"
    by (auto simp: passesThroughCentre_def Let_def C)
  with assms(1) show False by simp
qed

text \<open>
  Claim C5, as the code has it.  Let \<open>(A, B, C)\<close> be the plane normal of bin \<open>i\<close> of a table
  built by the constructor, other than the zero vector, for a camera with \<open>fu \<noteq> 0\<close> and
  \<open>fv \<noteq> 0\<close>.  The bin holds a curve with real coefficients.  If the test
  \<open>C\<^sup>2 fu fv / (A\<^sup>2 + B\<^sup>2) < 0.5\<close> of the code holds (\<open>passesThroughCentre\<close>: for \<open>A = B = 0\<close>
  the quotient is an infinity of the sign of \<open>fu fv\<close>), the curve has \<open>kuu = kuv = kvv = 0\<close>,
  \<open>ku = A / fu\<close>, \<open>kv = B / fv\<close> and \<open>k1 = - u0 A / fu - v0 B / fv\<close>.  Otherwise the curve is
  zero at the epipole, the projection of the baseline \<open>R21 zBase\<close> by camera 2.  (Doubles
  are reals here, so the value is exactly zero.)  For the zero plane normal, which a zero
  translation between the cameras gives in every bin, the claim fails: see the table
  built below.
\<close>

theorem epipolar_curve_of_bin:
  assumes new: "EnhancedEpipolar_new translation R21 cam2 projectPoint numberSteps = Some E"
    and i: "i < nat numberSteps"
    and plane: "cross (mulMV R21 (binDirection numberSteps (step E) (xBase E) (yBase E) (int i)))
                      (mulMV R21 (zBase E)) = (A, B, C)"
    and fu: "fu cam2 \<noteq> 0" and fv: "fv cam2 \<noteq> 0"
    and nz: "(A, B, C) \<noteq> (0, 0, 0)"
  shows "\<exists>c. epipolarVec E ! i = Some c \<and>
         (passesThroughCentre cam2 (A, B, C) \<longrightarrow>
            kuu c = 0 \<and> kuv c = 0 \<and> kvv c = 0 \<and>
            ku c = A / fu cam2 \<and> kv c = B / fv cam2 \<and>
            k1 c = - u0 cam2 * A / fu cam2 - v0 cam2 * B / fv cam2) \<and>
         (\<not> passesThroughCentre cam2 (A, B, C) \<longrightarrow>
            curveValue c (fst (epipole E)) (snd (epipole E)) = 0) \<and>
         epipole E = projectPoint (mulMV R21 (zBase E))"
proof -
  note d = EnhancedEpipolar_new_SomeD[OF new]
  from d(7) i plane have c: "epipolarVec E ! i = curveOfPlane cam2 (epipole E) (A, B, C)" by simp
  show ?thesis
  proof (cases "passesThroughCentre cam2 (A, B, C)")
    case True
    then have "epipolarVec E ! i = lineCurve cam2 (A, B, C)" by (simp add: c curveOfPlane_def)
    with lineCurve_Some[OF fu fv, of A B C] True d(6) show ?thesis by simp
  next
    case False
    from not_passesThroughCentre_C[OF False nz] have "C \<noteq> 0" .
    from conicCurve_Some[OF fu fv this, of "epipole E" A B]
    obtain k where k: "conicCurve cam2 (epipole E) (A, B, C) = Some k" by blast
    with False have "epipolarVec E ! i = Some k" by (simp add: c curveOfPlane_def)
    with conicCurve_through_epipole[OF k] False d(6) show ?thesis by simp
  qed
qed

text \<open>
  A table of four bins.  The projection is \<^verbatim>\<open>Pinhole::projectPoint\<close> of the camera header
  (its flag is ignored by the constructor, which keeps the point written).
\<close>

definition Pinhole_projectPoint :: "real \<Rightarrow> real \<Rightarrow> real \<Rightarrow> Vector3d \<Rightarrow> bool \<times> Vector2d" where
  "Pinhole_projectPoint pu0 pv0 f src =
     (case src of (x, y, z) \<Rightarrow>
        if z < 1 / 100 then (False, (- 1, - 1))
        else (True, (x * f / z + pu0, y * f / z + pv0)))"

definition camEx :: Intrinsics where
  "camEx = \<lparr>alpha = 1 / 2, beta = 1, fu = 250, fv = 250, u0 = 320, v0 = 240\<rparr>"

definition rotEx :: Matrix3d where
  "rotEx = ((1, 0, 0), (0, 4 / 5, 3 / 5), (0, - 3 / 5, 4 / 5))"

definition projectEx :: "Vector3d \<Rightarrow> Vector2d" where
  "projectEx X = snd (Pinhole_projectPoint 320 240 250 X)"

lemma epipolarEx_basis:
  assumes "EnhancedEpipolar_new (0, 0, - 1) rotEx camEx projectEx 4 = Some E"
  shows "zBase E = (0, 0, 1)" "xBase E = (1, 0, 0)" "yBase E = (0, 1, 0)" "step E = 1"
    "nSteps E = 4" "epipole E = (320, 855 / 2)"
proof -
  note d = EnhancedEpipolar_new_SomeD[OF assms]
  show z: "zBase E = (0, 0, 1)" by (simp add: d(9) normalizedV_def normV_def dot_def scaleV_def)
  show x: "xBase E = (1, 0, 0)"
    by (simp add: d(10) z Let_def normalizedV_def normV_def dot_def scaleV_def addV_def)
  show "yBase E = (0, 1, 0)" by (simp add: d(11) z x cross_def)
  show "step E = 1" by (simp add: d(4))
  show "nSteps E = 4" by (simp add: d(3))
  show "epipole E = (320, 855 / 2)"
    by (simp add: d(6) z rotEx_def mulMV_def dot_def projectEx_def Pinhole_projectPoint_def)
qed

lemma epipolarEx_planes:
  assumes "EnhancedEpipolar_new (0, 0, - 1) rotEx camEx projectEx 4 = Some E"
  shows "cross (mulMV rotEx (binDirection 4 (step E) (xBase E) (yBase E) (int 0)))
               (mulMV rotEx (zBase E)) = (- 1, - (4 / 5), 3 / 5)"
    and "cross (mulMV rotEx (binDirection 4 (step E) (xBase E) (yBase E) (int 3)))
               (mulMV rotEx (zBase E)) = (1, 0, 0)"
  by (simp_all add: epipolarEx_basis[OF assms] binDirection_def signed_divide_int_def Let_def
      rotEx_def mulMV_def dot_def cross_def addV_def scaleV_def)

lemma camEx_tests:
  "\<not> passesThroughCentre camEx (- 1, - (4 / 5), 3 / 5)" "passesThroughCentre camEx (1, 0, 0)"
  "fu camEx \<noteq> 0" "fv camEx \<noteq> 0"
  by (simp_all add: passesThroughCentre_def Let_def camEx_def)

theorem epipolar_curve_of_bin_witness:
  "\<exists>E c0 c3. EnhancedEpipolar_new (0, 0, - 1) rotEx camEx projectEx 4 = Some E \<and>
      (0::nat) < nat 4 \<and> (3::nat) < nat 4 \<and> fu camEx \<noteq> 0 \<and> fv camEx \<noteq> 0 \<and>
      cross (mulMV rotEx (binDirection 4 (step E) (xBase E) (yBase E) (int 0)))
            (mulMV rotEx (zBase E)) = (- 1, - (4 / 5), 3 / 5) \<and>
      cross (mulMV rotEx (binDirection 4 (step E) (xBase E) (yBase E) (int 3)))
            (mulMV rotEx (zBase E)) = (1, 0, 0) \<and>
      \<not> passesThroughCentre camEx (- 1, - (4 / 5), 3 / 5) \<and> passesThroughCentre camEx (1, 0, 0) \<and>
      epipolarVec E ! 0 = Some c0 \<and>
      curveValue c0 (fst (epipole E)) (snd (epipole E)) = 0 \<and>
      epipolarVec E ! 3 = Some c3 \<and>
      kuu c3 = 0 \<and> kuv c3 = 0 \<and> kvv c3 = 0 \<and> ku c3 = 1 / 250 \<and> kv c3 = 0 \<and> k1 c3 = - (32 / 25) \<and>
      epipole E = projectEx (mulMV rotEx (zBase E))"
proof -
  from EnhancedEpipolar_new_Some[of 4 "(0, 0, - 1)" rotEx camEx projectEx]
  obtain E where E: "EnhancedEpipolar_new (0, 0, - 1) rotEx camEx projectEx 4 = Some E" by auto
  have i0: "(0::nat) < nat 4" and i3: "(3::nat) < nat 4" by simp_all
  note p = epipolarEx_planes[OF E]
  have nz0: "(- 1, - (4 / 5), 3 / 5) \<noteq> (0 :: real, 0 :: real, 0 :: real)"
    and nz3: "(1, 0, 0) \<noteq> (0 :: real, 0 :: real, 0 :: real)" by simp_all
  from epipolar_curve_of_bin[OF E i0 p(1) camEx_tests(3,4) nz0] camEx_tests(1)
  obtain c0 where c0: "epipolarVec E ! 0 = Some c0"
    "curveValue c0 (fst (epipole E)) (snd (epipole E)) = 0"
    "epipole E = projectEx (mulMV rotEx (zBase E))" by blast
  from epipolar_curve_of_bin[OF E i3 p(2) camEx_tests(3,4) nz3] camEx_tests(2)
  obtain c3 where c3: "epipolarVec E ! 3 = Some c3" "kuu c3 = 0" "kuv c3 = 0" "kvv c3 = 0"
    "ku c3 = 1 / fu camEx" "kv c3 = 0 / fv camEx"
    "k1 c3 = - u0 camEx * 1 / fu camEx - v0 camEx * 0 / fv camEx" by blast
  from c3(5,6,7) have c3': "ku c3 = 1 / 250" "kv c3 = 0" "k1 c3 = - (32 / 25)"
    by (simp_all add: camEx_def)
  from E i0 i3 p camEx_tests c0 c3(1,2,3,4) c3' show ?thesis by blast
qed

text \<open>
  The table for a zero translation, the pose \<^verbatim>\<open>Transformation<double>()\<close> the test program
  passes: the base vector \<open>zBase\<close> is zero, so is the plane normal of every bin, the test
  \<^verbatim>\<open>0/0 < 0.5\<close> fails and the second branch divides by \<^verbatim>\<open>CC*fufu = 0\<close>.  The bin holds no
  curve with real coefficients, and nothing that is zero at the epipole.
\<close>

lemma epipolarZero_basis:
  assumes "EnhancedEpipolar_new (0, 0, 0) rotEx camEx projectEx 4 = Some E"
  shows "zBase E = (0, 0, 0)" "epipole E = (- 1, - 1)"
proof -
  note d = EnhancedEpipolar_new_SomeD[OF assms]
  show z: "zBase E = (0, 0, 0)" by (simp add: d(9) normalizedV_def dot_def scaleV_def)
  show "epipole E = (- 1, - 1)"
    by (simp add: d(6) z rotEx_def mulMV_def dot_def projectEx_def Pinhole_projectPoint_def)
qed

lemma cross_zero: "cross X (0, 0, 0) = (0, 0, 0)"
  by (cases X) (simp add: cross_def)

theorem epipolar_curve_zero_baseline_counterexample:
  "\<exists>E. EnhancedEpipolar_new (0, 0, 0) rotEx camEx projectEx 4 = Some E \<and>
      cross (mulMV rotEx (binDirection 4 (step E) (xBase E) (yBase E) (int 0)))
            (mulMV rotEx (zBase E)) = (0, 0, 0) \<and>
      \<not> passesThroughCentre camEx (0, 0, 0) \<and>
      epipolarVec E ! 0 = None"
proof -
  from EnhancedEpipolar_new_Some[of 4 "(0, 0, 0)" rotEx camEx projectEx]
  obtain E where E: "EnhancedEpipolar_new (0, 0, 0) rotEx camEx projectEx 4 = Some E" by auto
  note d = EnhancedEpipolar_new_SomeD[OF E]
  note b = epipolarZero_basis[OF E]
  have t: "mulMV rotEx (zBase E) = (0, 0, 0)" by (simp add: b(1) rotEx_def mulMV_def dot_def)
  have pl: "cross (mulMV rotEx (binDirection 4 (step E) (xBase E) (yBase E) (int 0)))
            (mulMV rotEx (zBase E)) = (0, 0, 0)" unfolding t by (rule cross_zero)
  have np: "\<not> passesThroughCentre camEx (0, 0, 0)" by (simp add: passesThroughCentre_def Let_def)
  have "epipolarVec E ! 0 = curveOfPlane camEx (epipole E) (0, 0, 0)"
    using d(7) pl by simp
  then have "epipolarVec E ! 0 = None" using np by (simp add: curveOfPlane_def conicCurve_def Let_def)
  with E pl np show ?thesis by blast
qed

theorem index_within_table_witness:
  "\<exists>E. EnhancedEpipolar_new (0, 0, - 1) rotEx camEx projectEx 4 = Some E \<and>
      index E (1, 2, 3) = 3 \<and>
      0 \<le> index E (1, 2, 3) \<and> index E (1, 2, 3) \<le> nSteps E \<and>
      int (length (epipolarVec E)) = nSteps E + 1 \<and>
      epipolarVec E ! nat (nSteps E) = epipolarVec E ! 0 \<and>
      getCurveOfRay E (1, 2, 3) = Some (epipolarVec E ! nat (index E (1, 2, 3)))"
proof -
  from EnhancedEpipolar_new_Some[of 4 "(0, 0, - 1)" rotEx camEx projectEx]
  obtain E where E: "EnhancedEpipolar_new (0, 0, - 1) rotEx camEx projectEx 4 = Some E" by auto
  note b = epipolarEx_basis[OF E]
  have i: "index E (1, 2, 3) = 3"
    by (simp add: index_def Let_def b dot_def cround_def signed_divide_int_def)
  from index_within_table[OF E, of "(1, 2, 3)"] E i show ?thesis by blast
qed


end
